theory Spec2Isabelle
  imports Main "HOL-Library.Multiset"
begin

unbundle bit_operations_syntax

chapter \<open>The model\<close>

section \<open>JavaScript values used by the SDK\<close>

text \<open>
  A thrown value. The SDK only reads \<open>e.message\<close> of what it catches, so an error is
  its kind and its message.
\<close>

datatype js_error = Error string | SyntaxError string

fun message :: "js_error \<Rightarrow> string" where
  "message (Error m) = m"
| "message (SyntaxError m) = m"

subsection \<open>Decimal strings and \<open>bigint\<close>\<close>

text \<open>
  A \<open>bigint\<close> is an \<open>int\<close>. \<open>bigint_toString\<close> is \<open>BigInt.prototype.toString()\<close>
  and \<open>BigInt\<close> is the conversion \<open>BigInt(string)\<close>, which throws a SyntaxError on a
  string that is not an integer literal. Only the literals this program builds are
  modelled: an optional sign followed by decimal digits (the empty string is \<open>0n\<close>).
  Radix prefixes and surrounding white space, which JavaScript also accepts, never occur
  in those strings and fall under the error branch here.
\<close>

definition digit_char :: "int \<Rightarrow> char" where
  "digit_char d = char_of (48 + d)"

definition is_digit :: "char \<Rightarrow> bool" where
  "is_digit c = (48 \<le> (of_char c :: int) \<and> (of_char c :: int) \<le> 57)"

definition digit_val :: "char \<Rightarrow> int" where
  "digit_val c = of_char c - 48"

text \<open>The decimal digits of an integer that is not negative.\<close>

function decimal_digits :: "int \<Rightarrow> string" where
  "decimal_digits n =
     (if n < 10 then [digit_char n] else decimal_digits (n div 10) @ [digit_char (n mod 10)])"
  by pat_completeness auto
termination
  by (relation "measure nat") auto

declare decimal_digits.simps [simp del]

definition digits_value :: "string \<Rightarrow> int" where
  "digits_value ds = foldl (\<lambda>acc c. 10 * acc + digit_val c) 0 ds"

definition bigint_toString :: "int \<Rightarrow> string" where
  "bigint_toString i =
     (if i < 0 then CHR ''-'' # decimal_digits (- i) else decimal_digits i)"

definition BigInt :: "string \<Rightarrow> js_error + int" where
  "BigInt s =
     (case s of
        [] \<Rightarrow> Inr 0
      | c # ds \<Rightarrow>
          if c = CHR ''-'' \<or> c = CHR ''+'' then
            (if ds \<noteq> [] \<and> list_all is_digit ds
             then Inr ((if c = CHR ''-'' then - 1 else 1) * digits_value ds)
             else Inl (SyntaxError s))
          else if list_all is_digit s then Inr (digits_value s)
          else Inl (SyntaxError s))"

section \<open>Types (src/types.ts)\<close>

record TokenConfig =
  symbol :: string
  name :: string
  address :: "string option"
  decimals :: int
  isNative :: bool

record TokenWithBalance = TokenConfig +
  balance :: string
  balanceFormatted :: string
  hasBalance :: bool

text \<open>The object spread \<open>{...token, balance, balanceFormatted, hasBalance}\<close>.\<close>

definition withBalance :: "TokenConfig \<Rightarrow> string \<Rightarrow> string \<Rightarrow> bool \<Rightarrow> TokenWithBalance" where
  "withBalance token b f h =
     \<lparr>symbol = symbol token, name = name token, address = address token,
      decimals = decimals token, isNative = isNative token,
      balance = b, balanceFormatted = f, hasBalance = h\<rparr>"

section \<open>Array.prototype.sort\<close>

text \<open>
  \<open>fetchTokenBalances\<close> ranks with the engine's \<open>Array.prototype.sort\<close> and a comparator.
  ECMAScript fixes the result (a stable sort) only for a consistent comparator and leaves
  the order to the engine otherwise. The model is the algorithm V8 (Node.js, Chrome) runs
  on an array shorter than 64 elements: \<open>CountAndMakeRun\<close> finds the run the array starts
  with, reversing it when it is descending, and \<open>BinaryInsertionSort\<close> inserts every later
  element by binary search. (On longer arrays V8 cuts the array into such runs and merges
  them.) A comparator that throws aborts the sort.
\<close>

type_synonym 'a comparefn = "'a \<Rightarrow> 'a \<Rightarrow> js_error + int"

text \<open>How many elements after \<open>prev\<close> continue the run.\<close>

fun run_rest :: "'a comparefn \<Rightarrow> bool \<Rightarrow> 'a \<Rightarrow> 'a list \<Rightarrow> js_error + nat" where
  "run_rest c isDescending prev [] = Inr 0"
| "run_rest c isDescending prev (x # xs) =
     (case c x prev of
        Inl e \<Rightarrow> Inl e
      | Inr order \<Rightarrow>
          if (if isDescending then order \<ge> 0 else order < 0) then Inr 0
          else (case run_rest c isDescending x xs of
                  Inl e \<Rightarrow> Inl e
                | Inr n \<Rightarrow> Inr (Suc n)))"

text \<open>The run the array starts with (reversed when descending) and the elements after it.\<close>

definition CountAndMakeRun :: "'a comparefn \<Rightarrow> 'a list \<Rightarrow> js_error + ('a list \<times> 'a list)" where
  "CountAndMakeRun c xs =
     (case xs of
        [] \<Rightarrow> Inr ([], [])
      | [x] \<Rightarrow> Inr ([x], [])
      | elementHigh # elementLow # rest \<Rightarrow>
          (case c elementLow elementHigh of
             Inl e \<Rightarrow> Inl e
           | Inr order \<Rightarrow>
               let isDescending = order < 0 in
               (case run_rest c isDescending elementLow rest of
                  Inl e \<Rightarrow> Inl e
                | Inr n \<Rightarrow>
                    let runLength = n + 2; run = take runLength xs in
                    Inr (if isDescending then rev run else run, drop runLength xs))))"

text \<open>
  The binary search of \<open>BinaryInsertionSort\<close>: the place of \<open>pivot\<close> in
  \<open>work[left..right)\<close>.
\<close>

function binary_search :: "'a comparefn \<Rightarrow> 'a \<Rightarrow> 'a list \<Rightarrow> nat \<Rightarrow> nat \<Rightarrow> js_error + nat" where
  "binary_search c pivot work left right =
     (if left < right then
        (let mid = left + (right - left) div 2 in
         case c pivot (work ! mid) of
           Inl e \<Rightarrow> Inl e
         | Inr order \<Rightarrow>
             if order < 0 then binary_search c pivot work left mid
             else binary_search c pivot work (mid + 1) right)
      else Inr left)"
  by pat_completeness auto
termination
  by (relation "measure (\<lambda>(c, pivot, work, left, right). right - left)") auto

declare binary_search.simps [simp del]

text \<open>\<open>front\<close> is the part of the array already in order, the second list what is left.\<close>

fun BinaryInsertionSort :: "'a comparefn \<Rightarrow> 'a list \<Rightarrow> 'a list \<Rightarrow> js_error + 'a list" where
  "BinaryInsertionSort c front [] = Inr front"
| "BinaryInsertionSort c front (pivot # rest) =
     (case binary_search c pivot front 0 (length front) of
        Inl e \<Rightarrow> Inl e
      | Inr left \<Rightarrow> BinaryInsertionSort c (take left front @ pivot # drop left front) rest)"

definition array_sort :: "'a comparefn \<Rightarrow> 'a list \<Rightarrow> js_error + 'a list" where
  "array_sort c xs =
     (if length xs < 2 then Inr xs
      else (case CountAndMakeRun c xs of
              Inl e \<Rightarrow> Inl e
            | Inr (run, rest) \<Rightarrow> BinaryInsertionSort c run rest))"

section \<open>Balance aggregation (src/core/logic.ts)\<close>

text \<open>
  What the chain answers: \<open>getBalance\<close> for the native currency (wallet address, chain
  id), \<open>readContract\<close> for \<open>balanceOf\<close> of a token contract (contract address, wallet
  address, chain id), each a balance or a thrown error. \<open>formatUnits\<close> is the viem
  function; its result is only displayed.
\<close>

record Chain =
  getBalance :: "string \<Rightarrow> int \<Rightarrow> js_error + int"
  readContract :: "string option \<Rightarrow> string \<Rightarrow> int \<Rightarrow> js_error + int"
  formatUnits :: "int \<Rightarrow> int \<Rightarrow> js_error + string"

datatype log_entry = ConsoleError string js_error

text \<open>The body of the \<open>try\<close> block of the callback given to \<open>tokens.map\<close>.\<close>

definition balance_try :: "Chain \<Rightarrow> string \<Rightarrow> int \<Rightarrow> TokenConfig \<Rightarrow> js_error + TokenWithBalance" where
  "balance_try ch walletAddress cid token =
     (case (if isNative token then getBalance ch walletAddress cid
            else readContract ch (address token) walletAddress cid) of
        Inl e \<Rightarrow> Inl e
      | Inr bal \<Rightarrow>
          (case formatUnits ch bal (decimals token) of
             Inl e \<Rightarrow> Inl e
           | Inr formatted \<Rightarrow>
               Inr (withBalance token (bigint_toString bal) formatted (bal > 0))))"

text \<open>
  The callback with its \<open>catch\<close>: what it logs and the promise it returns. The promise
  is a sum because \<open>Promise.all\<close> below rejects as soon as one of its promises does.
\<close>

definition balance_of_token ::
  "Chain \<Rightarrow> string \<Rightarrow> int \<Rightarrow> TokenConfig \<Rightarrow> log_entry list \<times> (js_error + TokenWithBalance)" where
  "balance_of_token ch walletAddress cid token =
     (case balance_try ch walletAddress cid token of
        Inr r \<Rightarrow> ([], Inr r)
      | Inl e \<Rightarrow>
          ([ConsoleError (''Failed to fetch balance for '' @ symbol token @ '':'') e],
           Inr (withBalance token ''0'' ''0'' False)))"

fun Promise_all :: "(js_error + 'a) list \<Rightarrow> js_error + 'a list" where
  "Promise_all [] = Inr []"
| "Promise_all (Inl e # ps) = Inl e"
| "Promise_all (Inr x # ps) =
     (case Promise_all ps of Inl e \<Rightarrow> Inl e | Inr xs \<Rightarrow> Inr (x # xs))"

text \<open>The comparator of the final \<open>sort\<close>.\<close>

definition compareFn :: "TokenWithBalance comparefn" where
  "compareFn a b =
     (if hasBalance a \<and> \<not> hasBalance b then Inr (- 1)
      else if \<not> hasBalance a \<and> hasBalance b then Inr 1
      else if hasBalance a \<and> hasBalance b then
        (case BigInt (balance b) of
           Inl e \<Rightarrow> Inl e
         | Inr bb \<Rightarrow>
             (case BigInt (balance a) of
                Inl e \<Rightarrow> Inl e
              | Inr ba \<Rightarrow> Inr (if bb > ba then 1 else - 1)))
      else Inr 0)"

text \<open>
  The result is the console output and the promise. The requests run concurrently; the
  log lists their failures in the order of the tokens.
\<close>

definition fetchTokenBalances ::
  "Chain \<Rightarrow> TokenConfig list \<Rightarrow> string \<Rightarrow> int \<Rightarrow> log_entry list \<times> (js_error + TokenWithBalance list)" where
  "fetchTokenBalances ch tokenList walletAddress cid =
     (let results = map (balance_of_token ch walletAddress cid) tokenList in
      (concat (map fst results),
       case Promise_all (map snd results) of
         Inl e \<Rightarrow> Inl e
       | Inr balances \<Rightarrow> array_sort compareFn balances))"

text \<open>
  The group of an element of a ranked list: 0 when it has the property (a token with a
  balance), 1 when it has not. A list whose groups are in order has every element of
  group 0 before every element of group 1.
\<close>

definition group_key :: "('a \<Rightarrow> bool) \<Rightarrow> 'a \<Rightarrow> nat" where
  "group_key P x = (if P x then 0 else 1)"

section \<open>Amount conversion\<close>

text \<open>
  Modelled from the spec: a step of \<open>parseUnits\<close> below, the fraction without its
  trailing zeros.
\<close>

definition trim_trailing_zeros :: "string \<Rightarrow> string" where
  "trim_trailing_zeros s = rev (dropWhile (\<lambda>c. c = CHR ''0'') (rev s))"

text \<open>
  Modelled from the spec: \<open>Math.round(Number(unit + "." + right))\<close>, which
  \<open>parseUnits\<close> below uses to round a fraction that has more digits than the precision.
  \<open>unit\<close> is at most one digit and \<open>right\<close> is a string of digits, so the string
  denotes \<open>n / p\<close> with \<open>0 \<le> n / p < 10\<close>. \<open>Number\<close> reads it as the nearest
  double, \<open>m / 2^s\<close> with \<open>2^52 \<le> m \<le> 2^53\<close> (ties to the even \<open>m\<close>), and
  \<open>Math.round\<close> rounds that double to the nearest integer, a half upwards. A string
  without any digit is NaN, here \<open>None\<close>.
\<close>

definition Math_round_Number :: "string \<Rightarrow> string \<Rightarrow> int option" where
  "Math_round_Number unit right =
     (if unit = [] \<and> right = [] then None
      else
        (let n = digits_value (unit @ right);
             p = 10 ^ length right
         in if 4 * n < p then Some 0
            else
              (let s = (if 8 * p \<le> n then 49 else if 4 * p \<le> n then 50
                        else if 2 * p \<le> n then 51 else if p \<le> n then 52
                        else if p \<le> 2 * n then 53 else (54::nat));
                   a = n * 2 ^ s;
                   m = (if p < 2 * (a mod p) \<or> (2 * (a mod p) = p \<and> odd (a div p))
                        then a div p + 1 else a div p)
               in Some ((2 * m + 2 ^ s) div 2 ^ (s + 1)))))"

text \<open>
  Modelled from the spec: \<open>`${BigInt(s) + 1n}`\<close> and \<open>s.padStart(n, '0')\<close>, two more
  steps of the rounding in \<open>parseUnits\<close>.
\<close>

definition add_one :: "string \<Rightarrow> js_error + string" where
  "add_one s = (case BigInt s of Inl e \<Rightarrow> Inl e | Inr n \<Rightarrow> Inr (bigint_toString (n + 1)))"

definition padStart :: "string \<Rightarrow> nat \<Rightarrow> string" where
  "padStart s n = replicate (n - length s) (CHR ''0'') @ s"

text \<open>
  Modelled from the spec: \<open>parseUnits\<close> is imported from the viem package and its source
  is not under src/. Section 4.2 of the spec gives its contract: from a decimal amount
  string and a decimal precision it produces the base-unit integer by scaling the string,
  never by a floating-point multiply. The model covers an amount written as digits, or
  as digits, a point and digits, at a precision that is not negative. As in the viem
  function, the fraction loses its trailing zeros. When it then has no more digits than
  the precision it is padded with zeros to the precision and the digits are read as one
  integer. When it has more, it is cut at the precision and rounded on the digits that are
  cut off, a half upwards, with the carry going into the digits before. What the function
  answers for any other string (a sign, no digit before or after the point, another
  character) or for a negative precision is left open: it is the parameter \<open>excess\<close>.
\<close>

definition parseUnits ::
  "(string \<Rightarrow> int \<Rightarrow> js_error + int) \<Rightarrow> string \<Rightarrow> int \<Rightarrow> js_error + int" where
  "parseUnits excess v decimalPlaces =
     (let integer = takeWhile (\<lambda>c. c \<noteq> CHR ''.'') v;
          after = dropWhile (\<lambda>c. c \<noteq> CHR ''.'') v;
          fraction0 = (if after = [] then ''0'' else tl after)
      in if integer = [] \<or> fraction0 = [] \<or> \<not> list_all is_digit integer
            \<or> \<not> list_all is_digit fraction0 \<or> decimalPlaces < 0
         then excess v decimalPlaces
         else
           (let fraction = trim_trailing_zeros fraction0;
                d = nat decimalPlaces
            in if decimalPlaces = 0 then
                 (case (if Math_round_Number [] fraction = Some 1 then add_one integer
                        else Inr integer) of
                    Inl e \<Rightarrow> Inl e
                  | Inr integer1 \<Rightarrow> BigInt integer1)
               else if d < length fraction then
                 (let left = take (d - 1) fraction;
                      unit = take 1 (drop (d - 1) fraction);
                      right = drop d fraction;
                      rounded = Math_round_Number unit right
                  in case (case rounded of
                             None \<Rightarrow> Inr (left @ ''NaN'')
                           | Some r \<Rightarrow>
                               if 9 < r then
                                 (case add_one left of
                                    Inl e \<Rightarrow> Inl e
                                  | Inr left1 \<Rightarrow> Inr (padStart (left1 @ ''0'') (length left + 1)))
                               else Inr (left @ bigint_toString r)) of
                       Inl e \<Rightarrow> Inl e
                     | Inr fraction1 \<Rightarrow>
                         (case (if d < length fraction1
                                then (case add_one integer of
                                        Inl e \<Rightarrow> Inl e
                                      | Inr integer1 \<Rightarrow> Inr (integer1, drop 1 fraction1))
                                else Inr (integer, fraction1)) of
                            Inl e \<Rightarrow> Inl e
                          | Inr (integer2, fraction2) \<Rightarrow> BigInt (integer2 @ take d fraction2)))
               else BigInt (integer @ fraction @ replicate (d - length fraction) (CHR ''0''))))"

section \<open>The payment modal (src/ui/Modal.tsx)\<close>

subsection \<open>Data\<close>

text \<open>
  The interfaces of src/types.ts and src/core/api.ts that the modal reads. A field name
  that several interfaces share, or that Isabelle reserves, carries a prefix.
\<close>

record ToolData =
  tool_id :: string
  amount :: string
  currency_id :: string
  chain_id :: int
  recipient_address :: string
  available_tokens :: "TokenConfig list"
  metadata_name :: string
  metadata_type :: string

record BackendIntentResponse =
  intent_id :: string
  intent_amount :: string
  currency :: string
  chainId :: int
  tokenAddress :: string
  merchantAddress :: string
  expiresAt :: string
  signature :: string
  nonce :: string

record Account =
  account_address :: string
  account_chainId :: int

text \<open>
  The object handed to \<open>walletManager.sendTransaction\<close>: \<open>{to, value, chainId}\<close> or
  \<open>{to, data, chainId}\<close>. A key that the object does not have is \<open>None\<close>.
\<close>

record Transaction =
  tx_to :: string
  tx_value :: "int option"
  tx_data :: "string option"
  tx_chainId :: int

record SubmitPaymentRequest =
  tx_hash :: string
  request_chain_id :: int
  amount_wei :: string
  token_address :: string
  recipient :: string
  metadata_toolId :: string

record SubmitPaymentResponse =
  payment_id :: string
  response_tx_hash :: string
  response_status :: string
  response_message :: string

datatype payment_status = pending | confirmed | failed

record PaymentStatusResponse =
  status_payment_id :: string
  status_tx_hash :: string
  status_chain_id :: int
  status :: payment_status
  verified_at :: "string option"

datatype abi_arg = AbiAddress string | AbiUint256 int

datatype PaymentState =
    FETCHING_TOOL
  | CONNECT_WALLET
  | FETCHING_BALANCES
  | SELECT_TOKEN
  | REVIEW
  | PROCESSING
  | POLLING
  | SUCCESS
  | ERROR

text \<open>
  What the modal does to the outside, in order: the callbacks it calls
  (\<open>callbacks?.onError?.(e)\<close> reaches the caller's function when there is one), the
  requests it sends through \<open>api\<close>, the calls to the wallet and the console output.
\<close>

datatype effect =
    Callback_onOpen
  | Callback_onError js_error
  | Callback_onTxSubmitted string
  | Callback_onSuccess PaymentStatusResponse
  | Api_fetchTool string
  | Api_createIntent string string
  | Api_submitPayment SubmitPaymentRequest string
  | Api_getPaymentStatus string string
  | Wallet_connect
  | Wallet_switchNetwork int
  | Wallet_sendTransaction Transaction
  | Console log_entry

text \<open>
  What the outside answers: the backend behind \<open>api\<close>, the wallet behind
  \<open>walletManager\<close>, the chain, what \<open>parseUnits\<close> answers outside the amounts
  modelled above, and viem's \<open>encodeFunctionData\<close>. A rejected promise or a thrown
  error is \<open>Inl\<close>.
\<close>

record World =
  fetchTool :: "string \<Rightarrow> js_error + ToolData"
  createIntent :: "string \<Rightarrow> string \<Rightarrow> js_error + BackendIntentResponse"
  submitPayment :: "SubmitPaymentRequest \<Rightarrow> string \<Rightarrow> js_error + SubmitPaymentResponse"
  isConnected :: bool
  connect :: "js_error + unit"
  getAccount :: "js_error + Account"
  switchNetwork :: "int \<Rightarrow> js_error + unit"
  sendTransaction :: "Transaction \<Rightarrow> js_error + string"
  chain :: Chain
  parseUnits_excess :: "string \<Rightarrow> int \<Rightarrow> js_error + int"
  encodeFunctionData :: "string \<Rightarrow> abi_arg list \<Rightarrow> js_error + string"

text \<open>The component's state (its \<open>useState\<close> hooks) and what it has done so far.\<close>

record Modal =
  state :: PaymentState
  toolData :: "ToolData option"
  tokens :: "TokenWithBalance list"
  selectedToken :: "TokenWithBalance option"
  error :: "string option"
  txHash :: "string option"
  effects :: "effect list"

definition initial_modal :: Modal where
  "initial_modal =
     \<lparr>state = FETCHING_TOOL, toolData = None, tokens = [], selectedToken = None,
      error = None, txHash = None, effects = []\<rparr>"

definition emit :: "effect \<Rightarrow> Modal \<Rightarrow> Modal" where
  "emit e m = m\<lparr>effects := effects m @ [e]\<rparr>"

text \<open>
  The \<open>catch\<close> block that \<open>loadTool\<close>, \<open>checkBalances\<close> and \<open>handlePay\<close> share:
  \<open>setError(e.message); setState('ERROR'); callbacks?.onError?.(e)\<close>.
\<close>

definition catch_error :: "js_error \<Rightarrow> Modal \<Rightarrow> Modal" where
  "catch_error e m = emit (Callback_onError e) (m\<lparr>error := Some (message e), state := ERROR\<rparr>)"

subsection \<open>checkBalances\<close>

text \<open>
  A \<open>try\<close> block is a function to a sum: \<open>Inl\<close> holds the error thrown and the state
  reached when it was thrown, \<open>Inr\<close> the state at the end of the block.
\<close>

definition checkBalances_try :: "World \<Rightarrow> ToolData \<Rightarrow> Modal \<Rightarrow> (js_error \<times> Modal) + Modal" where
  "checkBalances_try w d m =
     (case getAccount w of
        Inl e \<Rightarrow> Inl (e, m)
      | Inr account \<Rightarrow>
          (case (if account_chainId account \<noteq> chain_id d
                 then (case switchNetwork w (chain_id d) of
                         Inl e \<Rightarrow> Inl (e, emit (Wallet_switchNetwork (chain_id d)) m)
                       | Inr u \<Rightarrow> Inr (emit (Wallet_switchNetwork (chain_id d)) m))
                 else Inr m) of
             Inl failure \<Rightarrow> Inl failure
           | Inr m1 \<Rightarrow>
               (let (logs, promise) =
                      fetchTokenBalances (chain w) (available_tokens d) (account_address account) (chain_id d);
                    m2 = m1\<lparr>effects := effects m1 @ map Console logs\<rparr>
                in case promise of
                     Inl e \<Rightarrow> Inl (e, m2)
                   | Inr balances \<Rightarrow>
                       Inr (m2\<lparr>tokens := balances,
                               selectedToken :=
                                 (case List.find hasBalance balances of
                                    Some t \<Rightarrow> Some t
                                  | None \<Rightarrow> (case balances of [] \<Rightarrow> None | b # bs \<Rightarrow> Some b)),
                               state := SELECT_TOKEN\<rparr>))))"

definition checkBalances :: "World \<Rightarrow> ToolData \<Rightarrow> Modal \<Rightarrow> Modal" where
  "checkBalances w d m =
     (case checkBalances_try w d (m\<lparr>state := FETCHING_BALANCES\<rparr>) of
        Inr m' \<Rightarrow> m'
      | Inl (e, m') \<Rightarrow> catch_error e m')"

subsection \<open>loadTool, connectWallet and the effects\<close>

definition loadTool_try :: "World \<Rightarrow> string \<Rightarrow> Modal \<Rightarrow> (js_error \<times> Modal) + Modal" where
  "loadTool_try w toolId m =
     (let m1 = emit (Api_fetchTool toolId) ((emit Callback_onOpen m)\<lparr>state := FETCHING_TOOL\<rparr>)
      in case fetchTool w toolId of
           Inl e \<Rightarrow> Inl (e, m1)
         | Inr d \<Rightarrow>
             (let m2 = m1\<lparr>toolData := Some d\<rparr>
              in Inr (if isConnected w then checkBalances w d m2
                      else m2\<lparr>state := CONNECT_WALLET\<rparr>)))"

definition loadTool :: "World \<Rightarrow> string \<Rightarrow> Modal \<Rightarrow> Modal" where
  "loadTool w toolId m =
     (case loadTool_try w toolId m of
        Inr m' \<Rightarrow> m'
      | Inl (e, m') \<Rightarrow> catch_error e m')"

text \<open>
  \<open>connectWallet\<close> swallows what \<open>walletManager.connect()\<close> throws; after the second it
  waits, it looks at the connection once.
\<close>

definition connectWallet :: "World \<Rightarrow> Modal \<Rightarrow> Modal" where
  "connectWallet w m =
     (let m1 = emit Wallet_connect m
      in case connect w of
           Inl e \<Rightarrow> m1
         | Inr u \<Rightarrow>
             (case toolData m of
                Some d \<Rightarrow> if isConnected w then checkBalances w d m1 else m1
              | None \<Rightarrow> m1))"

text \<open>One tick of the interval that watches the connection.\<close>

definition interval_tick :: "World \<Rightarrow> Modal \<Rightarrow> Modal" where
  "interval_tick w m =
     (case toolData m of
        Some d \<Rightarrow> if state m = CONNECT_WALLET \<and> isConnected w then checkBalances w d m else m
      | None \<Rightarrow> m)"

text \<open>
  \<open>useEffect(() => { loadTool(); }, [toolId])\<close>: after a render the effect runs when
  \<open>toolId\<close> differs from the \<open>toolId\<close> of the render before (\<open>None\<close> at the first
  render), and not otherwise.
\<close>

definition loadTool_effect :: "World \<Rightarrow> string option \<Rightarrow> string \<Rightarrow> Modal \<Rightarrow> Modal" where
  "loadTool_effect w previous toolId m =
     (if previous = Some toolId then m else loadTool w toolId m)"

definition mount :: "World \<Rightarrow> string \<Rightarrow> Modal" where
  "mount w toolId = loadTool_effect w None toolId initial_modal"

text \<open>
  The Retry button of the ERROR screen, \<open>onClick={() => setState('FETCHING_TOOL')}\<close>,
  and the render it causes, with the same \<open>toolId\<close>.
\<close>

definition click_retry :: "World \<Rightarrow> string \<Rightarrow> Modal \<Rightarrow> Modal" where
  "click_retry w toolId m = loadTool_effect w (Some toolId) toolId (m\<lparr>state := FETCHING_TOOL\<rparr>)"

subsection \<open>handlePay\<close>

text \<open>
  \<open>poll\<close> asks for the status of the payment; the list holds the answers that arrive,
  in order. A pending answer sets the timer for the next request. When the list is used
  up the last request is still waiting.
\<close>

fun poll :: "string \<Rightarrow> string \<Rightarrow> (js_error + PaymentStatusResponse) list \<Rightarrow> Modal \<Rightarrow> Modal" where
  "poll toolId paymentId [] m = emit (Api_getPaymentStatus paymentId toolId) m"
| "poll toolId paymentId (answer # later) m =
     (let m1 = emit (Api_getPaymentStatus paymentId toolId) m
      in case (case answer of
                 Inl e \<Rightarrow> Inl e
               | Inr s \<Rightarrow> if status s = failed then Inl (Error ''Payment failed verification'')
                          else Inr s) of
           Inl e \<Rightarrow> m1\<lparr>error := Some (message e), state := ERROR\<rparr>
         | Inr s \<Rightarrow>
             if status s = confirmed then emit (Callback_onSuccess s) (m1\<lparr>state := SUCCESS\<rparr>)
             else poll toolId paymentId later m1)"

text \<open>The transaction of step 2, before it is sent.\<close>

definition handlePay_transaction ::
  "World \<Rightarrow> ToolData \<Rightarrow> TokenWithBalance \<Rightarrow> BackendIntentResponse \<Rightarrow> int \<Rightarrow> js_error + Transaction" where
  "handlePay_transaction w d token intent wei =
     (if isNative token then
        Inr \<lparr>tx_to = merchantAddress intent, tx_value = Some wei, tx_data = None,
             tx_chainId = chain_id d\<rparr>
      else
        (case encodeFunctionData w ''transfer'' [AbiAddress (merchantAddress intent), AbiUint256 wei] of
           Inl e \<Rightarrow> Inl e
         | Inr encoded \<Rightarrow>
             Inr \<lparr>tx_to = tokenAddress intent, tx_value = None, tx_data = Some encoded,
                  tx_chainId = chain_id d\<rparr>))"

definition handlePay_try ::
  "World \<Rightarrow> string \<Rightarrow> (js_error + PaymentStatusResponse) list \<Rightarrow> ToolData \<Rightarrow> TokenWithBalance \<Rightarrow>
   Modal \<Rightarrow> (js_error \<times> Modal) + Modal" where
  "handlePay_try w toolId answers d token m =
     (let m1 = emit (Api_createIntent toolId (symbol token)) (m\<lparr>state := PROCESSING\<rparr>)
      in case createIntent w toolId (symbol token) of
           Inl e \<Rightarrow> Inl (e, m1)
         | Inr intent \<Rightarrow>
         (case parseUnits (parseUnits_excess w) (intent_amount intent) (decimals token) of
           Inl e \<Rightarrow> Inl (e, m1)
         | Inr wei \<Rightarrow>
         (case handlePay_transaction w d token intent wei of
           Inl e \<Rightarrow> Inl (e, m1)
         | Inr tx \<Rightarrow>
         (let m2 = emit (Wallet_sendTransaction tx) m1
          in case sendTransaction w tx of
           Inl e \<Rightarrow> Inl (e, m2)
         | Inr hash \<Rightarrow>
         (let request =
                \<lparr>tx_hash = hash, request_chain_id = chain_id d,
                 amount_wei = bigint_toString wei, token_address = tokenAddress intent,
                 recipient = merchantAddress intent, metadata_toolId = toolId\<rparr>;
              m3 = emit (Api_submitPayment request toolId)
                     ((emit (Callback_onTxSubmitted hash) (m2\<lparr>txHash := Some hash\<rparr>))
                        \<lparr>state := POLLING\<rparr>)
          in case submitPayment w request toolId of
           Inl e \<Rightarrow> Inl (e, m3)
         | Inr submitRes \<Rightarrow> Inr (poll toolId (payment_id submitRes) answers m3))))))"

definition handlePay ::
  "World \<Rightarrow> string \<Rightarrow> (js_error + PaymentStatusResponse) list \<Rightarrow> Modal \<Rightarrow> Modal" where
  "handlePay w toolId answers m =
     (case (toolData m, selectedToken m) of
        (Some d, Some token) \<Rightarrow>
          (case handlePay_try w toolId answers d token m of
             Inr m' \<Rightarrow> m'
           | Inl (e, m') \<Rightarrow> catch_error e m')
      | _ \<Rightarrow> m)"

section \<open>Webhook signature verification\<close>

text \<open>
  Modelled from the spec: the parts of \<open>verifyWebhookSignature\<close> below, whose source is
  not under src/. Step 1 of section 4.4 reads the header as comma-separated
  \<open>key=value\<close> pairs: \<open>split_on\<close> cuts a string at a separator, \<open>key_value\<close> cuts a
  pair at its first \<open>=\<close>, and \<open>header_field\<close> is the value of the first pair with the
  key.
\<close>

fun split_on :: "char \<Rightarrow> string \<Rightarrow> string list" where
  "split_on sep [] = [[]]"
| "split_on sep (c # cs) =
     (if c = sep then [] # split_on sep cs
      else (case split_on sep cs of
              [] \<Rightarrow> [[c]]
            | p # ps \<Rightarrow> (c # p) # ps))"

definition key_value :: "string \<Rightarrow> string \<times> string" where
  "key_value p =
     (takeWhile (\<lambda>c. c \<noteq> CHR ''='') p, drop 1 (dropWhile (\<lambda>c. c \<noteq> CHR ''='') p))"

definition header_field :: "string \<Rightarrow> string \<Rightarrow> string option" where
  "header_field k h = map_of (map key_value (split_on (CHR '','') h)) k"

definition is_lower_hex :: "char \<Rightarrow> bool" where
  "is_lower_hex c = (is_digit c \<or> (97 \<le> (of_char c :: int) \<and> (of_char c :: int) \<le> 102))"

text \<open>
  Modelled from the spec: the constant-time comparison of step 3. It looks at every byte
  whatever it has seen before (it collects the differences and only then answers), and it
  rejects strings of different lengths.
\<close>

definition timing_safe_equal :: "string \<Rightarrow> string \<Rightarrow> bool" where
  "timing_safe_equal a b =
     (length a = length b \<and>
      foldl (\<lambda>acc (x, y). acc OR ((of_char x :: nat) XOR of_char y)) 0 (zip a b) = 0)"

text \<open>
  Modelled from the spec: \<open>verifyWebhookSignature\<close> is exported by the package (the test
  script imports it from \<open>dist/index.js\<close>), but its source is not under src/. Section
  4.4 of the spec gives the algorithm: the header must hold a \<open>t\<close> (a decimal integer,
  unix seconds) and a \<open>v1\<close> (a lowercase hex string); the expected signature is the hex
  HMAC-SHA256 of \<open>t.rawBody\<close> under the secret; it is compared with \<open>v1\<close> in constant
  time; and the event is rejected when \<open>|now - t|\<close> exceeds the tolerance (300 seconds
  when none is given). The verifier never throws: every failure is the answer \<open>False\<close>.
  HMAC-SHA256 is the platform's (a parameter; \<open>Inl\<close> when the platform refuses to sign)
  and so is the clock.
\<close>

definition verifyWebhookSignature ::
  "(string \<Rightarrow> string \<Rightarrow> js_error + string) \<Rightarrow> int \<Rightarrow> string \<Rightarrow> string \<Rightarrow> string \<Rightarrow> int option \<Rightarrow> bool" where
  "verifyWebhookSignature hmac_sha256_hex now rawBody signatureHeader secret toleranceSec =
     (let tolerance = (case toleranceSec of None \<Rightarrow> 300 | Some s \<Rightarrow> s)
      in case (header_field ''t'' signatureHeader, header_field ''v1'' signatureHeader) of
           (Some t, Some v1) \<Rightarrow>
             if t = [] \<or> \<not> list_all is_digit t \<or> v1 = [] \<or> \<not> list_all is_lower_hex v1
             then False
             else (case hmac_sha256_hex secret (t @ ''.'' @ rawBody) of
                     Inl e \<Rightarrow> False
                   | Inr expected \<Rightarrow>
                       timing_safe_equal expected v1
                       \<and> \<bar>now - digits_value t\<bar> \<le> tolerance)
         | _ \<Rightarrow> False)"

text \<open>The header the backend sends: \<open>t=<unix seconds>,v1=<signature>\<close>.\<close>

definition signature_header :: "int \<Rightarrow> string \<Rightarrow> string" where
  "signature_header t v1 = ''t='' @ decimal_digits t @ '',v1='' @ v1"

section \<open>What the modal has done\<close>

definition onError_calls :: "Modal \<Rightarrow> js_error list" where
  "onError_calls m = [e. Callback_onError e \<leftarrow> effects m]"

definition fetchTool_requests :: "Modal \<Rightarrow> string list" where
  "fetchTool_requests m = [i. Api_fetchTool i \<leftarrow> effects m]"

definition sent_transactions :: "Modal \<Rightarrow> Transaction list" where
  "sent_transactions m = [tx. Wallet_sendTransaction tx \<leftarrow> effects m]"

section \<open>Example data\<close>

text \<open>A token named by its symbol, and a chain given by the balances it answers with.\<close>

definition example_token :: "string \<Rightarrow> bool \<Rightarrow> TokenConfig" where
  "example_token s native =
     \<lparr>symbol = s, name = s, address = (if native then None else Some (''0x'' @ s)),
      decimals = 18, isNative = native\<rparr>"

definition example_chain :: "(string \<times> (js_error + int)) list \<Rightarrow> js_error + int \<Rightarrow> Chain" where
  "example_chain contracts native =
     \<lparr>getBalance = (\<lambda>w c. native),
      readContract =
        (\<lambda>a w c. case a of
                    None \<Rightarrow> Inl (Error ''no address'')
                  | Some x \<Rightarrow> (case map_of contracts x of
                                 None \<Rightarrow> Inl (Error ''no contract'')
                               | Some r \<Rightarrow> r)),
      formatUnits = (\<lambda>b d. Inr (bigint_toString b))\<rparr>"

definition example_tool :: ToolData where
  "example_tool =
     \<lparr>tool_id = ''tool_1'', amount = ''49.99'', currency_id = ''USD'', chain_id = 1,
      recipient_address = ''0xmerchant'',
      available_tokens = [example_token ''ETH'' True, example_token ''USDC'' False],
      metadata_name = ''Order'', metadata_type = ''checkout''\<rparr>"

definition example_intent :: "string \<Rightarrow> BackendIntentResponse" where
  "example_intent s =
     \<lparr>intent_id = ''pi_1'', intent_amount = ''49.99'', currency = s, chainId = 1,
      tokenAddress = ''0x'' @ s, merchantAddress = ''0xmerchant'',
      expiresAt = ''2030-01-01T00:00:00Z'', signature = ''0xsig'', nonce = ''1''\<rparr>"

text \<open>
  A world in which every request succeeds: the wallet is connected on the right chain
  and holds 7 ETH and no USDC.
\<close>

definition example_world :: World where
  "example_world =
     \<lparr>fetchTool = (\<lambda>i. Inr example_tool),
      createIntent = (\<lambda>i s. Inr (example_intent s)),
      submitPayment =
        (\<lambda>r i. Inr \<lparr>payment_id = ''pay_1'', response_tx_hash = tx_hash r,
                     response_status = ''pending'', response_message = ''ok''\<rparr>),
      isConnected = True,
      connect = Inr (),
      getAccount = Inr \<lparr>account_address = ''0xabc'', account_chainId = 1\<rparr>,
      switchNetwork = (\<lambda>c. Inr ()),
      sendTransaction = (\<lambda>tx. Inr ''0xhash''),
      chain = example_chain [(''0xUSDC'', Inr 0)] (Inr 7000000000000000000),
      parseUnits_excess = (\<lambda>v d. Inl (Error ''InvalidDecimalNumberError'')),
      encodeFunctionData = (\<lambda>f args. Inr (''0x'' @ f))\<rparr>"

text \<open>A stand-in for the platform's HMAC-SHA256 that answers one fixed digest.\<close>

definition example_hmac :: "string \<Rightarrow> string \<Rightarrow> js_error + string" where
  "example_hmac secret payload = Inr ''5f2b1c0de4a7''"

chapter \<open>Properties\<close>

section \<open>Decimal strings round-trip\<close>

lemma digit_val_digit_char: "0 \<le> d \<Longrightarrow> d < 10 \<Longrightarrow> digit_val (digit_char d) = d"
proof -
  assume d: "0 \<le> d" "d < 10"
  then have "(48 + d) mod 256 = 48 + d" by simp
  then show ?thesis using d by (simp add: digit_val_def digit_char_def)
qed

lemma is_digit_digit_char: "0 \<le> d \<Longrightarrow> d < 10 \<Longrightarrow> is_digit (digit_char d)"
proof -
  assume d: "0 \<le> d" "d < 10"
  then have "(48 + d) mod 256 = 48 + d" by simp
  then show ?thesis using d by (simp add: is_digit_def digit_char_def)
qed

lemma digits_value_snoc: "digits_value (ds @ [c]) = 10 * digits_value ds + digit_val c"
  by (simp add: digits_value_def)

lemma digits_value_decimal_digits: "0 \<le> n \<Longrightarrow> digits_value (decimal_digits n) = n"
proof (induction n rule: decimal_digits.induct)
  case (1 n)
  show ?case
  proof (cases "n < 10")
    case True
    then show ?thesis using "1.prems"
      by (subst decimal_digits.simps) (simp add: digits_value_def digit_val_digit_char)
  next
    case False
    then have "digits_value (decimal_digits (n div 10)) = n div 10"
      using 1 by simp
    then show ?thesis
      using False "1.prems"
      by (subst decimal_digits.simps) (simp add: digits_value_snoc digit_val_digit_char)
  qed
qed

lemma all_digits_decimal_digits: "0 \<le> n \<Longrightarrow> list_all is_digit (decimal_digits n)"
proof (induction n rule: decimal_digits.induct)
  case (1 n)
  show ?case
  proof (cases "n < 10")
    case True
    then show ?thesis using "1.prems"
      by (subst decimal_digits.simps) (simp add: is_digit_digit_char)
  next
    case False
    then have "list_all is_digit (decimal_digits (n div 10))" using 1 by simp
    then show ?thesis
      using False "1.prems" by (subst decimal_digits.simps) (simp add: is_digit_digit_char)
  qed
qed

lemma decimal_digits_not_Nil: "decimal_digits n \<noteq> []"
  by (subst decimal_digits.simps) simp

lemma is_digit_not_sign: "is_digit c \<Longrightarrow> c \<noteq> CHR ''-'' \<and> c \<noteq> CHR ''+''"
  by (auto simp: is_digit_def)

lemma BigInt_digits:
  assumes "ds \<noteq> []" "list_all is_digit ds"
  shows "BigInt ds = Inr (digits_value ds)"
proof -
  obtain c cs where ds: "ds = c # cs" using assms(1) by (cases ds) auto
  with assms(2) have "is_digit c" by simp
  then have "c \<noteq> CHR ''-''" "c \<noteq> CHR ''+''" using is_digit_not_sign by auto
  then show ?thesis using assms(2) by (simp add: BigInt_def ds)
qed

lemma BigInt_bigint_toString: "BigInt (bigint_toString i) = Inr i"
proof (cases "i < 0")
  case True
  then show ?thesis
    by (simp add: bigint_toString_def BigInt_def decimal_digits_not_Nil
        all_digits_decimal_digits digits_value_decimal_digits)
next
  case False
  then show ?thesis
    by (simp add: bigint_toString_def BigInt_digits decimal_digits_not_Nil
        all_digits_decimal_digits digits_value_decimal_digits)
qed

lemma BigInt_zero: "BigInt ''0'' = Inr 0"
  by (simp add: BigInt_def is_digit_def digits_value_def digit_val_def)

section \<open>The sort returns a permutation\<close>

lemma binary_search_total:
  assumes "\<And>y. y \<in> set work \<Longrightarrow> \<exists>r. c p y = Inr r" "right \<le> length work"
  shows "\<exists>pos. binary_search c p work left right = Inr pos"
  using assms
proof (induction c p work left right rule: binary_search.induct)
  case (1 c pivot work left right)
  show ?case
  proof (cases "left < right")
    case False
    then show ?thesis by (subst binary_search.simps) simp
  next
    case True
    define mid where "mid = left + (right - left) div 2"
    have mid: "mid < right" "left \<le> mid" using True by (auto simp: mid_def)
    then have "work ! mid \<in> set work" using "1.prems"(2) by simp
    then obtain r where r: "c pivot (work ! mid) = Inr r" using "1.prems"(1) by blast
    show ?thesis
    proof (cases "r < 0")
      case True
      have "\<exists>pos. binary_search c pivot work left mid = Inr pos"
        using "1.IH"(1)[OF \<open>left < right\<close> mid_def r True] "1.prems" mid by auto
      then show ?thesis
        using \<open>left < right\<close> r True by (subst binary_search.simps) (simp add: mid_def Let_def)
    next
      case False
      have "\<exists>pos. binary_search c pivot work (mid + 1) right = Inr pos"
        using "1.IH"(2)[OF \<open>left < right\<close> mid_def r False] "1.prems" by auto
      then show ?thesis
        using \<open>left < right\<close> r False by (subst binary_search.simps) (simp add: mid_def Let_def)
    qed
  qed
qed

lemma BinaryInsertionSort_mset:
  assumes "\<And>x y. x \<in> set front \<union> set rest \<Longrightarrow> y \<in> set front \<union> set rest \<Longrightarrow> \<exists>r. c x y = Inr r"
  shows "\<exists>ys. BinaryInsertionSort c front rest = Inr ys \<and> mset ys = mset front + mset rest"
  using assms
proof (induction rest arbitrary: front)
  case Nil
  then show ?case by simp
next
  case (Cons p rest)
  have "\<exists>pos. binary_search c p front 0 (length front) = Inr pos"
    by (rule binary_search_total) (use Cons.prems in auto)
  then obtain pos where pos: "binary_search c p front 0 (length front) = Inr pos" by blast
  let ?f = "take pos front @ p # drop pos front"
  have m: "mset ?f = mset front + {#p#}"
    by (metis add_mset_add_single append_take_drop_id mset.simps(2) mset_append union_mset_add_mset_right)
  have s: "set ?f = insert p (set front)"
    using m by (metis mset_eq_setD set_mset_add_mset_insert set_mset_mset union_single_eq_member
        add_mset_add_single)
  have "\<exists>ys. BinaryInsertionSort c ?f rest = Inr ys \<and> mset ys = mset ?f + mset rest"
    by (rule Cons.IH) (use Cons.prems s in auto)
  then show ?case using pos m by auto
qed

lemma run_rest_total:
  assumes "\<And>x y. x \<in> insert prev (set xs) \<Longrightarrow> y \<in> insert prev (set xs) \<Longrightarrow> \<exists>r. c x y = Inr r"
  shows "\<exists>n. run_rest c d prev xs = Inr n \<and> n \<le> length xs"
  using assms
proof (induction xs arbitrary: prev)
  case Nil
  then show ?case by simp
next
  case (Cons x xs)
  obtain r where r: "c x prev = Inr r" using Cons.prems by fastforce
  have "\<exists>n. run_rest c d x xs = Inr n \<and> n \<le> length xs"
    by (rule Cons.IH) (use Cons.prems in auto)
  then show ?case using r by auto
qed

lemma CountAndMakeRun_mset:
  assumes "\<And>x y. x \<in> set xs \<Longrightarrow> y \<in> set xs \<Longrightarrow> \<exists>r. c x y = Inr r"
  shows "\<exists>run rest. CountAndMakeRun c xs = Inr (run, rest) \<and> mset run + mset rest = mset xs"
proof (cases xs)
  case Nil
  then show ?thesis by (simp add: CountAndMakeRun_def)
next
  case (Cons x0 xs')
  show ?thesis
  proof (cases xs')
    case Nil
    then show ?thesis using Cons by (simp add: CountAndMakeRun_def)
  next
    case (Cons x1 rest)
    note xs = \<open>xs = x0 # xs'\<close> Cons
    obtain r where r: "c x1 x0 = Inr r" using assms xs by fastforce
    have "\<exists>n. run_rest c (r < 0) x1 rest = Inr n \<and> n \<le> length rest"
      by (rule run_rest_total) (use assms xs in auto)
    then obtain n where n: "run_rest c (r < 0) x1 rest = Inr n" by blast
    have "mset (take (n + 2) xs) + mset (drop (n + 2) xs) = mset xs"
      by (metis append_take_drop_id mset_append)
    then show ?thesis
      using r n xs by (auto simp: CountAndMakeRun_def Let_def)
  qed
qed

lemma array_sort_mset:
  assumes "\<And>x y. x \<in> set xs \<Longrightarrow> y \<in> set xs \<Longrightarrow> \<exists>r. c x y = Inr r"
  shows "\<exists>ys. array_sort c xs = Inr ys \<and> mset ys = mset xs"
proof (cases "length xs < 2")
  case True
  then show ?thesis by (simp add: array_sort_def)
next
  case False
  have "\<exists>run rest. CountAndMakeRun c xs = Inr (run, rest) \<and> mset run + mset rest = mset xs"
    by (rule CountAndMakeRun_mset) (rule assms)
  then obtain run rest where rr: "CountAndMakeRun c xs = Inr (run, rest)" "mset run + mset rest = mset xs"
    by blast
  then have "set run \<union> set rest = set xs"
    by (metis mset_eq_setD set_append mset_append)
  then have "\<exists>ys. BinaryInsertionSort c run rest = Inr ys \<and> mset ys = mset run + mset rest"
    using assms by (intro BinaryInsertionSort_mset) auto
  then show ?thesis using rr False by (auto simp: array_sort_def)
qed

section \<open>The sort keeps the two groups apart\<close>


lemma binary_search_back:
  assumes "\<And>y. y \<in> set work \<Longrightarrow> \<exists>r\<ge>0. c p y = Inr r" "left \<le> right" "right \<le> length work"
  shows "binary_search c p work left right = Inr right"
  using assms
proof (induction c p work left right rule: binary_search.induct)
  case (1 c pivot work left right)
  show ?case
  proof (cases "left < right")
    case False
    then show ?thesis using "1.prems"(2) by (subst binary_search.simps) simp
  next
    case True
    define mid where "mid = left + (right - left) div 2"
    have mid: "mid < right" "left \<le> mid" using True by (auto simp: mid_def)
    then have "work ! mid \<in> set work" using "1.prems"(3) by simp
    then obtain r where r: "c pivot (work ! mid) = Inr r" "r \<ge> 0" using "1.prems"(1) by blast
    then have nr: "\<not> r < 0" by simp
    have "binary_search c pivot work (mid + 1) right = Inr right"
      using "1.IH"(2)[OF True mid_def r(1) nr] "1.prems" mid by auto
    then show ?thesis
      using True r by (subst binary_search.simps) (simp add: mid_def Let_def)
  qed
qed

lemma binary_search_front:
  assumes "sorted (map (group_key P) work)"
    and "\<And>y. y \<in> set work \<Longrightarrow> \<exists>r. c p y = Inr r"
    and "\<And>y r. y \<in> set work \<Longrightarrow> \<not> P y \<Longrightarrow> c p y = Inr r \<Longrightarrow> r < 0"
    and "\<forall>i<left. P (work ! i)" "left \<le> right" "right \<le> length work"
  shows "\<exists>pos. binary_search c p work left right = Inr pos \<and> pos \<le> right \<and> (\<forall>i<pos. P (work ! i))"
  using assms
proof (induction c p work left right rule: binary_search.induct)
  case (1 c pivot work left right)
  show ?case
  proof (cases "left < right")
    case False
    then show ?thesis using "1.prems" by (subst binary_search.simps) simp
  next
    case True
    define mid where "mid = left + (right - left) div 2"
    have mid: "mid < right" "left \<le> mid" using True by (auto simp: mid_def)
    then have mem: "work ! mid \<in> set work" and midlen: "mid < length work"
      using "1.prems"(6) by simp_all
    then obtain r where r: "c pivot (work ! mid) = Inr r" using "1.prems"(2) by blast
    show ?thesis
    proof (cases "r < 0")
      case neg: True
      have "\<exists>pos. binary_search c pivot work left mid = Inr pos \<and> pos \<le> mid \<and> (\<forall>i<pos. P (work ! i))"
        using "1.IH"(1)[OF True mid_def r neg "1.prems"(1)] "1.prems"(2-6) mid by auto
      then show ?thesis
        using True r neg mid by (subst binary_search.simps) (auto simp add: mid_def Let_def)
    next
      case nonneg: False
      have Pm: "P (work ! mid)" using "1.prems"(3)[OF mem _ r] nonneg by blast
      have "\<forall>i<mid + 1. P (work ! i)"
      proof (intro allI impI)
        fix i assume "i < mid + 1"
        then have "i \<le> mid" by simp
        then have "map (group_key P) work ! i \<le> map (group_key P) work ! mid"
          using "1.prems"(1) midlen by (intro sorted_nth_mono) auto
        then show "P (work ! i)" using Pm midlen \<open>i \<le> mid\<close>
          by (auto simp: group_key_def split: if_splits)
      qed
      then have "\<exists>pos. binary_search c pivot work (mid + 1) right = Inr pos \<and> pos \<le> right \<and> (\<forall>i<pos. P (work ! i))"
        using "1.IH"(2)[OF True mid_def r nonneg "1.prems"(1)] "1.prems"(2-6) mid by auto
      then show ?thesis
        using True r nonneg by (subst binary_search.simps) (auto simp add: mid_def Let_def)
    qed
  qed
qed

lemma sorted_insert_front:
  assumes "sorted (map (group_key P) work)" "P p" "\<forall>i<pos. P (work ! i)" "pos \<le> length work"
  shows "sorted (map (group_key P) (take pos work @ p # drop pos work))"
proof -
  have "\<forall>x\<in>set (take pos work). P x"
    using assms(3,4) by (auto simp: in_set_conv_nth)
  then have t: "\<forall>x\<in>set (take pos work). group_key P x = 0" by (simp add: group_key_def)
  have "sorted (map (group_key P) (take pos work @ drop pos work))" using assms(1) by simp
  then have "sorted (map (group_key P) (take pos work))" "sorted (map (group_key P) (drop pos work))"
    by (simp_all add: sorted_append del: append_take_drop_id)
  then show ?thesis using t assms(2)
    by (auto simp: sorted_append group_key_def)
qed

lemma sorted_insert_back:
  assumes "sorted (map (group_key P) work)" "\<not> P p"
  shows "sorted (map (group_key P) (work @ [p]))"
  using assms by (auto simp: sorted_append group_key_def)

lemma BinaryInsertionSort_groups:
  assumes "\<And>x y. x \<in> set front \<union> set rest \<Longrightarrow> y \<in> set front \<union> set rest \<Longrightarrow> \<exists>r. c x y = Inr r"
    and "\<And>x y r. x \<in> set front \<union> set rest \<Longrightarrow> y \<in> set front \<union> set rest \<Longrightarrow>
            P x \<Longrightarrow> \<not> P y \<Longrightarrow> c x y = Inr r \<Longrightarrow> r < 0"
    and "\<And>x y r. x \<in> set front \<union> set rest \<Longrightarrow> y \<in> set front \<union> set rest \<Longrightarrow>
            \<not> P x \<Longrightarrow> c x y = Inr r \<Longrightarrow> r \<ge> 0"
    and "sorted (map (group_key P) front)"
  shows "\<exists>ys. BinaryInsertionSort c front rest = Inr ys \<and> sorted (map (group_key P) ys)"
  using assms
proof (induction rest arbitrary: front)
  case Nil
  then show ?case by simp
next
  case (Cons p rest)
  let ?S = "set front \<union> set (p # rest)"
  have tot: "\<And>x y. x \<in> ?S \<Longrightarrow> y \<in> ?S \<Longrightarrow> \<exists>r. c x y = Inr r" using Cons.prems(1) by blast
  have "\<exists>pos. binary_search c p front 0 (length front) = Inr pos \<and> pos \<le> length front \<and>
          sorted (map (group_key P) (take pos front @ p # drop pos front))"
  proof (cases "P p")
    case True
    have "\<exists>pos. binary_search c p front 0 (length front) = Inr pos \<and> pos \<le> length front \<and> (\<forall>i<pos. P (front ! i))"
    proof (rule binary_search_front[OF Cons.prems(4)])
      show "\<And>y. y \<in> set front \<Longrightarrow> \<exists>r. c p y = Inr r" using tot by simp
      show "\<And>y r. y \<in> set front \<Longrightarrow> \<not> P y \<Longrightarrow> c p y = Inr r \<Longrightarrow> r < 0"
        using Cons.prems(2)[of p] True by auto
    qed simp_all
    then show ?thesis using sorted_insert_front[OF Cons.prems(4) True] by blast
  next
    case False
    have "binary_search c p front 0 (length front) = Inr (length front)"
    proof (rule binary_search_back)
      fix y assume y: "y \<in> set front"
      then obtain r where r: "c p y = Inr r" using tot by fastforce
      then have "r \<ge> 0" using Cons.prems(3)[of p y r] False y by simp
      then show "\<exists>r\<ge>0. c p y = Inr r" using r by blast
    qed simp_all
    then show ?thesis using sorted_insert_back[OF Cons.prems(4) False] by simp
  qed
  then obtain pos where pos: "binary_search c p front 0 (length front) = Inr pos"
    and srt: "sorted (map (group_key P) (take pos front @ p # drop pos front))" by blast
  let ?f = "take pos front @ p # drop pos front"
  have s: "set ?f = insert p (set front)"
    by (metis append_take_drop_id list.simps(15) set_append Un_insert_right)
  have "\<exists>ys. BinaryInsertionSort c ?f rest = Inr ys \<and> sorted (map (group_key P) ys)"
  proof (rule Cons.IH[OF _ _ _ srt])
    show "\<And>x y. x \<in> set ?f \<union> set rest \<Longrightarrow> y \<in> set ?f \<union> set rest \<Longrightarrow> \<exists>r. c x y = Inr r"
      using Cons.prems(1) unfolding s by simp
    show "\<And>x y r. x \<in> set ?f \<union> set rest \<Longrightarrow> y \<in> set ?f \<union> set rest \<Longrightarrow>
            P x \<Longrightarrow> \<not> P y \<Longrightarrow> c x y = Inr r \<Longrightarrow> r < 0"
      using Cons.prems(2) unfolding s by simp
    show "\<And>x y r. x \<in> set ?f \<union> set rest \<Longrightarrow> y \<in> set ?f \<union> set rest \<Longrightarrow>
            \<not> P x \<Longrightarrow> c x y = Inr r \<Longrightarrow> r \<ge> 0"
      using Cons.prems(3) unfolding s by simp
  qed
  then show ?case using pos by simp
qed

lemma run_rest_ascending:
  assumes "\<And>x y r. x \<in> insert prev (set xs) \<Longrightarrow> y \<in> insert prev (set xs) \<Longrightarrow>
            P x \<Longrightarrow> \<not> P y \<Longrightarrow> c x y = Inr r \<Longrightarrow> r < 0"
    and "run_rest c False prev xs = Inr n"
  shows "sorted (map (group_key P) (prev # take n xs))"
  using assms
proof (induction xs arbitrary: prev n)
  case Nil
  then show ?case by simp
next
  case (Cons x xs)
  obtain r where r: "c x prev = Inr r"
    using Cons.prems(2) by (cases "c x prev") auto
  show ?case
  proof (cases "r < 0")
    case True
    then show ?thesis using Cons.prems(2) r by simp
  next
    case False
    then obtain m where m: "run_rest c False x xs = Inr m" "n = Suc m"
      using Cons.prems(2) r by (cases "run_rest c False x xs") auto
    have "sorted (map (group_key P) (x # take m xs))"
      by (rule Cons.IH[OF _ m(1)]) (use Cons.prems(1) in auto)
    moreover have "group_key P prev \<le> group_key P x"
      using Cons.prems(1)[of x prev r] r False by (auto simp: group_key_def)
    ultimately show ?thesis using m(2) by auto
  qed
qed

lemma run_rest_descending:
  assumes "\<And>x y r. x \<in> insert prev (set xs) \<Longrightarrow> y \<in> insert prev (set xs) \<Longrightarrow>
            \<not> P x \<Longrightarrow> c x y = Inr r \<Longrightarrow> r \<ge> 0"
    and "run_rest c True prev xs = Inr n"
  shows "list_all P (take n xs)"
  using assms
proof (induction xs arbitrary: prev n)
  case Nil
  then show ?case by simp
next
  case (Cons x xs)
  obtain r where r: "c x prev = Inr r"
    using Cons.prems(2) by (cases "c x prev") auto
  show ?case
  proof (cases "r \<ge> 0")
    case True
    then show ?thesis using Cons.prems(2) r by simp
  next
    case False
    then obtain m where m: "run_rest c True x xs = Inr m" "n = Suc m"
      using Cons.prems(2) r by (cases "run_rest c True x xs") auto
    have "list_all P (take m xs)"
      by (rule Cons.IH[OF _ m(1)]) (use Cons.prems(1) in auto)
    moreover have "P x"
      using Cons.prems(1)[of x prev r] r False by auto
    ultimately show ?thesis using m(2) by auto
  qed
qed

lemma sorted_const_key: "\<forall>x\<in>set xs. f x = (0::nat) \<Longrightarrow> sorted (map f xs)"
  by (induction xs) auto

lemma CountAndMakeRun_groups:
  assumes "\<And>x y r. x \<in> set xs \<Longrightarrow> y \<in> set xs \<Longrightarrow> P x \<Longrightarrow> \<not> P y \<Longrightarrow> c x y = Inr r \<Longrightarrow> r < 0"
    and "\<And>x y r. x \<in> set xs \<Longrightarrow> y \<in> set xs \<Longrightarrow> \<not> P x \<Longrightarrow> c x y = Inr r \<Longrightarrow> r \<ge> 0"
    and "CountAndMakeRun c xs = Inr (run, rest)"
  shows "sorted (map (group_key P) run)"
proof (cases xs)
  case Nil
  then show ?thesis using assms(3) by (simp add: CountAndMakeRun_def)
next
  case (Cons x0 xs')
  show ?thesis
  proof (cases xs')
    case Nil
    then show ?thesis using Cons assms(3) by (auto simp add: CountAndMakeRun_def)
  next
    case (Cons x1 tl)
    note xs = \<open>xs = x0 # xs'\<close> Cons
    obtain r where r: "c x1 x0 = Inr r"
      using assms(3) xs by (cases "c x1 x0") (auto simp: CountAndMakeRun_def)
    obtain n where n: "run_rest c (r < 0) x1 tl = Inr n"
      using assms(3) xs r by (cases "run_rest c (r < 0) x1 tl") (auto simp: CountAndMakeRun_def Let_def)
    have run: "run = (if r < 0 then rev (x0 # x1 # take n tl) else x0 # x1 # take n tl)"
      using assms(3) xs r n by (auto simp: CountAndMakeRun_def Let_def)
    show ?thesis
    proof (cases "r < 0")
      case True
      have "list_all P (take n tl)"
        by (rule run_rest_descending[where c = c and prev = x1]) (use assms(2) xs n True in auto)
      moreover have "P x1" using assms(2)[of x1 x0 r] r True xs by auto
      ultimately have "list_all P (x1 # take n tl)" by simp
      then have "\<forall>x\<in>set (rev (x1 # take n tl)). group_key P x = 0"
        by (auto simp: group_key_def list_all_iff)
      then have "sorted (map (group_key P) (rev (x1 # take n tl) @ [x0]))"
        using sorted_const_key[of "rev (x1 # take n tl)" "group_key P"]
        unfolding map_append sorted_append by auto
      then show ?thesis using run True by simp
    next
      case False
      have "sorted (map (group_key P) (x1 # take n tl))"
        by (rule run_rest_ascending[where c = c]) (use assms(1) xs n False in auto)
      moreover have "group_key P x0 \<le> group_key P x1"
        using assms(1)[of x1 x0 r] r False xs by (auto simp: group_key_def)
      ultimately show ?thesis using run False by auto
    qed
  qed
qed

lemma array_sort_groups:
  assumes tot: "\<And>x y. x \<in> set xs \<Longrightarrow> y \<in> set xs \<Longrightarrow> \<exists>r. c x y = Inr r"
    and lt: "\<And>x y r. x \<in> set xs \<Longrightarrow> y \<in> set xs \<Longrightarrow> P x \<Longrightarrow> \<not> P y \<Longrightarrow> c x y = Inr r \<Longrightarrow> r < 0"
    and ge: "\<And>x y r. x \<in> set xs \<Longrightarrow> y \<in> set xs \<Longrightarrow> \<not> P x \<Longrightarrow> c x y = Inr r \<Longrightarrow> r \<ge> 0"
  shows "\<exists>ys. array_sort c xs = Inr ys \<and> mset ys = mset xs \<and> sorted (map (group_key P) ys)"
proof (cases "length xs < 2")
  case True
  then have "xs = [] \<or> (\<exists>x. xs = [x])" by (cases xs) (auto simp: length_Suc_conv)
  then show ?thesis using True by (auto simp: array_sort_def)
next
  case False
  have "\<exists>run rest. CountAndMakeRun c xs = Inr (run, rest) \<and> mset run + mset rest = mset xs"
    by (rule CountAndMakeRun_mset) (rule tot)
  then obtain run rest where rr: "CountAndMakeRun c xs = Inr (run, rest)" "mset run + mset rest = mset xs"
    by blast
  then have S: "set run \<union> set rest = set xs"
    by (metis mset_eq_setD set_append mset_append)
  have run: "sorted (map (group_key P) run)"
    by (rule CountAndMakeRun_groups[OF lt ge rr(1)])
  have "\<exists>ys. BinaryInsertionSort c run rest = Inr ys \<and> mset ys = mset run + mset rest"
    using tot S by (intro BinaryInsertionSort_mset) auto
  moreover have "\<exists>ys. BinaryInsertionSort c run rest = Inr ys \<and> sorted (map (group_key P) ys)"
  proof (rule BinaryInsertionSort_groups[OF _ _ _ run])
    show "\<And>x y. x \<in> set run \<union> set rest \<Longrightarrow> y \<in> set run \<union> set rest \<Longrightarrow> \<exists>r. c x y = Inr r"
      using tot unfolding S by simp
    show "\<And>x y r. x \<in> set run \<union> set rest \<Longrightarrow> y \<in> set run \<union> set rest \<Longrightarrow>
            P x \<Longrightarrow> \<not> P y \<Longrightarrow> c x y = Inr r \<Longrightarrow> r < 0"
      using lt unfolding S by simp
    show "\<And>x y r. x \<in> set run \<union> set rest \<Longrightarrow> y \<in> set run \<union> set rest \<Longrightarrow>
            \<not> P x \<Longrightarrow> c x y = Inr r \<Longrightarrow> r \<ge> 0"
      using ge unfolding S by simp
  qed
  ultimately show ?thesis using rr False by (auto simp: array_sort_def)
qed

lemma sorted_groups_filter:
  "sorted (map (group_key P) xs) \<Longrightarrow> xs = filter P xs @ filter (\<lambda>x. \<not> P x) xs"
proof (induction xs)
  case Nil
  then show ?case by simp
next
  case (Cons x xs)
  then have IH: "xs = filter P xs @ filter (\<lambda>x. \<not> P x) xs" by simp
  show ?case
  proof (cases "P x")
    case True
    then show ?thesis using IH by simp
  next
    case False
    then have "\<forall>y\<in>set xs. \<not> P y"
      using Cons.prems by (auto simp: group_key_def split: if_splits)
    then have "filter P xs = []" "filter (\<lambda>x. \<not> P x) xs = xs" by (simp_all add: filter_empty_conv)
    then show ?thesis using False by simp
  qed
qed

section \<open>Properties of fetchTokenBalances\<close>

lemma compareFn_total:
  assumes "BigInt (balance a) = Inr x" "BigInt (balance b) = Inr y"
  shows "\<exists>r. compareFn a b = Inr r"
  using assms by (simp add: compareFn_def)

lemma compareFn_before:
  "hasBalance a \<Longrightarrow> \<not> hasBalance b \<Longrightarrow> compareFn a b = Inr r \<Longrightarrow> r < 0"
  by (simp add: compareFn_def)

lemma compareFn_after:
  "\<not> hasBalance a \<Longrightarrow> compareFn a b = Inr r \<Longrightarrow> r \<ge> 0"
  by (auto simp add: compareFn_def split: if_splits)

lemma balance_of_token_Inr:
  "\<exists>r i. snd (balance_of_token ch w cid t) = Inr r \<and> BigInt (balance r) = Inr i"
proof (cases "balance_try ch w cid t")
  case (Inl e)
  then show ?thesis by (simp add: balance_of_token_def withBalance_def BigInt_zero)
next
  case (Inr r)
  then have "\<exists>i. balance r = bigint_toString i"
    by (auto simp: balance_try_def withBalance_def split: sum.splits)
  then show ?thesis using Inr by (auto simp: balance_of_token_def BigInt_bigint_toString)
qed

lemma Promise_all_Inr:
  assumes "\<And>p. p \<in> set ps \<Longrightarrow> \<exists>x. p = Inr x"
  shows "\<exists>xs. Promise_all ps = Inr xs \<and> map Inr xs = ps"
  using assms
proof (induction ps)
  case Nil
  then show ?case by simp
next
  case (Cons p ps)
  then obtain x where "p = Inr x" by auto
  moreover have "\<exists>xs. Promise_all ps = Inr xs \<and> map Inr xs = ps" using Cons by simp
  ultimately show ?case by auto
qed

lemma fetchTokenBalances_result:
  "\<exists>balances rs.
      map Inr balances = map (\<lambda>t. snd (balance_of_token ch w cid t)) toks
    \<and> snd (fetchTokenBalances ch toks w cid) = Inr rs
    \<and> mset rs = mset balances
    \<and> rs = filter hasBalance rs @ filter (\<lambda>r. \<not> hasBalance r) rs"
proof -
  let ?ps = "map (\<lambda>t. snd (balance_of_token ch w cid t)) toks"
  have "\<exists>xs. Promise_all ?ps = Inr xs \<and> map Inr xs = ?ps"
    by (rule Promise_all_Inr) (use balance_of_token_Inr in fastforce)
  then obtain bs where bs: "Promise_all ?ps = Inr bs" "map Inr bs = ?ps" by blast
  have ok: "\<exists>i. BigInt (balance b) = Inr i" if "b \<in> set bs" for b
  proof -
    from that have "Inr b \<in> set (map Inr bs :: (js_error + TokenWithBalance) list)" by simp
    then obtain t where "snd (balance_of_token ch w cid t) = Inr b" unfolding bs(2) by auto
    then show ?thesis using balance_of_token_Inr[of ch w cid t] by auto
  qed
  have "\<exists>ys. array_sort compareFn bs = Inr ys \<and> mset ys = mset bs \<and> sorted (map (group_key hasBalance) ys)"
  proof (rule array_sort_groups)
    show "\<And>x y. x \<in> set bs \<Longrightarrow> y \<in> set bs \<Longrightarrow> \<exists>r. compareFn x y = Inr r"
      using ok compareFn_total by meson
    show "\<And>x y r. x \<in> set bs \<Longrightarrow> y \<in> set bs \<Longrightarrow> hasBalance x \<Longrightarrow> \<not> hasBalance y \<Longrightarrow>
            compareFn x y = Inr r \<Longrightarrow> r < 0"
      using compareFn_before by blast
    show "\<And>x y r. x \<in> set bs \<Longrightarrow> y \<in> set bs \<Longrightarrow> \<not> hasBalance x \<Longrightarrow> compareFn x y = Inr r \<Longrightarrow> r \<ge> 0"
      using compareFn_after by blast
  qed
  then obtain ys where ys: "array_sort compareFn bs = Inr ys" "mset ys = mset bs"
    "sorted (map (group_key hasBalance) ys)" by blast
  have "snd (fetchTokenBalances ch toks w cid) = Inr ys"
    using bs(1) ys(1) by (simp add: fetchTokenBalances_def Let_def comp_def)
  then show ?thesis using bs(2) ys(2) sorted_groups_filter[OF ys(3)] by blast
qed

lemma bigint_toString_0: "bigint_toString 0 = ''0''"
  by code_simp





text \<open>
  C10: a token whose balance request and formatting succeed with the integer \<open>bal\<close> is
  reported with \<open>hasBalance\<close> true exactly when \<open>bal > 0\<close>. The result lists every
  token with \<open>hasBalance = true\<close> before every token with \<open>hasBalance = false\<close>, and
  a token that resolves to the balance 0 is among the latter.
\<close>

theorem hasBalance_iff_positive_balance:
  assumes "t \<in> set toks"
    and "(if isNative t then getBalance ch w cid else readContract ch (address t) w cid) = Inr bal"
    and "formatUnits ch bal (decimals t) = Inr f"
  shows "\<exists>rs r. snd (fetchTokenBalances ch toks w cid) = Inr rs
      \<and> r \<in> set rs
      \<and> r = withBalance t (bigint_toString bal) f (0 < bal)
      \<and> (hasBalance r \<longleftrightarrow> 0 < bal)
      \<and> rs = filter hasBalance rs @ filter (\<lambda>x. \<not> hasBalance x) rs
      \<and> (bal = 0 \<longrightarrow> r \<in> set (filter (\<lambda>x. \<not> hasBalance x) rs))"
proof -
  let ?r = "withBalance t (bigint_toString bal) f (0 < bal)"
  obtain bs rs where bs: "map Inr bs = map (\<lambda>t. snd (balance_of_token ch w cid t)) toks"
    and rs: "snd (fetchTokenBalances ch toks w cid) = Inr rs" and m: "mset rs = mset bs"
    and groups: "rs = filter hasBalance rs @ filter (\<lambda>r. \<not> hasBalance r) rs"
    using fetchTokenBalances_result[of ch w cid toks] by blast
  have "balance_try ch w cid t = Inr ?r"
    using assms(2,3) by (simp add: balance_try_def split: if_splits)
  then have "snd (balance_of_token ch w cid t) = Inr ?r"
    by (simp add: balance_of_token_def)
  then have "Inr ?r \<in> set (map (\<lambda>t. snd (balance_of_token ch w cid t)) toks)"
    using assms(1) by force
  then have "Inr ?r \<in> set (map Inr bs :: (js_error + TokenWithBalance) list)"
    using bs by simp
  then have "?r \<in> set bs" by auto
  then have mem: "?r \<in> set rs" using m by (metis set_mset_mset)
  have flag: "hasBalance ?r \<longleftrightarrow> 0 < bal" by (simp add: withBalance_def)
  have "bal = 0 \<longrightarrow> ?r \<in> set (filter (\<lambda>x. \<not> hasBalance x) rs)"
  proof
    assume "bal = 0"
    then have "\<not> hasBalance ?r" using flag by simp
    then show "?r \<in> set (filter (\<lambda>x. \<not> hasBalance x) rs)" using mem by simp
  qed
  then show ?thesis using rs mem flag groups by blast
qed

theorem hasBalance_iff_positive_balance_witness:
  "example_token ''A'' True \<in> set [example_token ''B'' False, example_token ''A'' True]
   \<and> getBalance (example_chain [(''0xB'', Inr 100)] (Inr 0)) ''0xabc'' 1 = Inr 0
   \<and> formatUnits (example_chain [(''0xB'', Inr 100)] (Inr 0)) 0 18 = Inr ''0''
   \<and> (\<exists>rs. snd (fetchTokenBalances (example_chain [(''0xB'', Inr 100)] (Inr 0))
                  [example_token ''B'' False, example_token ''A'' True] ''0xabc'' 1) = Inr rs
          \<and> withBalance (example_token ''A'' True) ''0'' ''0'' False
               \<in> set (filter (\<lambda>x. \<not> hasBalance x) rs))"
proof -
  let ?ch = "example_chain [(''0xB'', Inr 100)] (Inr 0)"
  let ?toks = "[example_token ''B'' False, example_token ''A'' True]"
  have 1: "example_token ''A'' True \<in> set ?toks" by simp
  have 2: "(if isNative (example_token ''A'' True) then getBalance ?ch ''0xabc'' 1
            else readContract ?ch (address (example_token ''A'' True)) ''0xabc'' 1) = Inr 0"
    by (simp add: example_chain_def example_token_def)
  have 3: "formatUnits ?ch 0 (decimals (example_token ''A'' True)) = Inr ''0''"
    by (simp add: example_chain_def example_token_def bigint_toString_0)
  have 4: "getBalance ?ch ''0xabc'' 1 = Inr 0" by (simp add: example_chain_def)
  have 5: "formatUnits ?ch 0 18 = Inr ''0''" by (simp add: example_chain_def bigint_toString_0)
  show ?thesis
    using hasBalance_iff_positive_balance[OF 1 2 3] 1 4 5
    by (auto simp: bigint_toString_0)
qed

text \<open>
  C3, at two tokens that both hold 5 base units: the comparator answers -1 for the pair in
  either order, and the sort returns them in the opposite of their input order.
\<close>

theorem equal_balances_change_places:
  "snd (fetchTokenBalances (example_chain [(''0xB'', Inr 5)] (Inr 5))
         [example_token ''A'' True, example_token ''B'' False] ''0xabc'' 1)
     = Inr [withBalance (example_token ''B'' False) ''5'' ''5'' True,
            withBalance (example_token ''A'' True) ''5'' ''5'' True]
   \<and> compareFn (withBalance (example_token ''A'' True) ''5'' ''5'' True)
               (withBalance (example_token ''B'' False) ''5'' ''5'' True) = Inr (- 1)
   \<and> compareFn (withBalance (example_token ''B'' False) ''5'' ''5'' True)
               (withBalance (example_token ''A'' True) ''5'' ''5'' True) = Inr (- 1)"
  by code_simp

section \<open>Properties of the modal\<close>

lemma fetchTokenBalances_nonempty:
  assumes "toks \<noteq> []"
  shows "\<exists>bs. snd (fetchTokenBalances ch toks w cid) = Inr bs \<and> bs \<noteq> []"
proof -
  obtain bs rs where bs: "map Inr bs = map (\<lambda>t. snd (balance_of_token ch w cid t)) toks"
    and rs: "snd (fetchTokenBalances ch toks w cid) = Inr rs" and m: "mset rs = mset bs"
    using fetchTokenBalances_result[of ch w cid toks] by blast
  have "length rs = length toks"
    using m bs by (metis length_map mset_eq_length)
  then have "rs \<noteq> []" using assms by auto
  then show ?thesis using rs by blast
qed

text \<open>
  C8: when the account is known and on the tool's chain (or the switch to it succeeds) and
  the tool offers at least one token, \<open>checkBalances\<close> ends in SELECT_TOKEN with the
  ranked list in \<open>tokens\<close> and, selected, the first token of that list with
  \<open>hasBalance = true\<close>, or the first token of the list when none has a balance.
\<close>

theorem checkBalances_selects_first_with_balance:
  assumes "getAccount w = Inr acct"
    and "account_chainId acct = chain_id d \<or> switchNetwork w (chain_id d) = Inr ()"
    and "available_tokens d \<noteq> []"
  shows "\<exists>bs. snd (fetchTokenBalances (chain w) (available_tokens d) (account_address acct) (chain_id d)) = Inr bs
      \<and> bs \<noteq> []
      \<and> state (checkBalances w d m) = SELECT_TOKEN
      \<and> tokens (checkBalances w d m) = bs
      \<and> selectedToken (checkBalances w d m)
          = Some (case List.find hasBalance bs of Some t \<Rightarrow> t | None \<Rightarrow> hd bs)"
proof -
  obtain bs where bs:
    "snd (fetchTokenBalances (chain w) (available_tokens d) (account_address acct) (chain_id d)) = Inr bs"
    "bs \<noteq> []"
    using fetchTokenBalances_nonempty[OF assms(3)] by blast
  obtain logs where f:
    "fetchTokenBalances (chain w) (available_tokens d) (account_address acct) (chain_id d) = (logs, Inr bs)"
    using bs(1) by (cases "fetchTokenBalances (chain w) (available_tokens d) (account_address acct) (chain_id d)") auto
  obtain b bs' where cons: "bs = b # bs'" using bs(2) by (cases bs) auto
  have sel: "(case List.find hasBalance bs of Some t \<Rightarrow> Some t
              | None \<Rightarrow> (case bs of [] \<Rightarrow> None | b # bs \<Rightarrow> Some b))
           = Some (case List.find hasBalance bs of Some t \<Rightarrow> t | None \<Rightarrow> hd bs)"
    using cons by (simp split: option.splits)
  define m0 where "m0 = (if account_chainId acct = chain_id d then m\<lparr>state := FETCHING_BALANCES\<rparr>
                         else emit (Wallet_switchNetwork (chain_id d)) (m\<lparr>state := FETCHING_BALANCES\<rparr>))"
  define m1 where "m1 = m0\<lparr>effects := effects m0 @ map Console logs\<rparr>"
  have "checkBalances_try w d (m\<lparr>state := FETCHING_BALANCES\<rparr>)
          = Inr (m1\<lparr>tokens := bs,
                    selectedToken := Some (case List.find hasBalance bs of Some t \<Rightarrow> t | None \<Rightarrow> hd bs),
                    state := SELECT_TOKEN\<rparr>)"
  proof (cases "account_chainId acct = chain_id d")
    case True
    then show ?thesis
      using assms(1) f sel by (simp add: checkBalances_try_def m0_def m1_def)
  next
    case False
    then have "switchNetwork w (chain_id d) = Inr ()" using assms(2) by simp
    then show ?thesis
      using assms(1) f sel False by (simp add: checkBalances_try_def m0_def m1_def)
  qed
  then have "checkBalances w d m
      = m1\<lparr>tokens := bs,
           selectedToken := Some (case List.find hasBalance bs of Some t \<Rightarrow> t | None \<Rightarrow> hd bs),
           state := SELECT_TOKEN\<rparr>"
    by (simp add: checkBalances_def)
  then show ?thesis using bs by simp
qed

theorem checkBalances_selects_first_with_balance_witness:
  "getAccount example_world = Inr \<lparr>account_address = ''0xabc'', account_chainId = 1\<rparr>
   \<and> account_chainId \<lparr>account_address = ''0xabc'', account_chainId = 1\<rparr> = chain_id example_tool
   \<and> available_tokens example_tool \<noteq> []
   \<and> state (checkBalances example_world example_tool initial_modal) = SELECT_TOKEN
   \<and> map symbol (tokens (checkBalances example_world example_tool initial_modal)) = [''ETH'', ''USDC'']
   \<and> map_option symbol (selectedToken (checkBalances example_world example_tool initial_modal)) = Some ''ETH''"
proof -
  let ?acct = "\<lparr>account_address = ''0xabc'', account_chainId = 1\<rparr>"
  have 1: "getAccount example_world = Inr ?acct" by (simp add: example_world_def)
  have 2: "account_chainId ?acct = chain_id example_tool \<or> switchNetwork example_world (chain_id example_tool) = Inr ()"
    by (simp add: example_tool_def)
  have 3: "available_tokens example_tool \<noteq> []" by (simp add: example_tool_def)
  have 4: "snd (fetchTokenBalances (chain example_world) (available_tokens example_tool)
                 (account_address ?acct) (chain_id example_tool))
           = Inr [withBalance (example_token ''ETH'' True) ''7000000000000000000'' ''7000000000000000000'' True,
                  withBalance (example_token ''USDC'' False) ''0'' ''0'' False]"
    by code_simp
  show ?thesis
    using checkBalances_selects_first_with_balance[OF 1 2 3, of initial_modal] 1 2 3 4
    by (auto simp: withBalance_def example_token_def example_tool_def)
qed

lemma sent_transactions_emit:
  "sent_transactions (emit e m) =
     sent_transactions m @ (case e of Wallet_sendTransaction tx \<Rightarrow> [tx] | _ \<Rightarrow> [])"
  by (cases e) (simp_all add: sent_transactions_def emit_def)

lemma sent_transactions_update [simp]:
  "sent_transactions (m\<lparr>state := s\<rparr>) = sent_transactions m"
  "sent_transactions (m\<lparr>error := er\<rparr>) = sent_transactions m"
  "sent_transactions (m\<lparr>txHash := h\<rparr>) = sent_transactions m"
  by (simp_all add: sent_transactions_def)

lemma sent_transactions_catch_error [simp]:
  "sent_transactions (catch_error e m) = sent_transactions m"
  by (simp add: catch_error_def sent_transactions_emit)

lemma sent_transactions_poll [simp]:
  "sent_transactions (poll toolId paymentId answers m) = sent_transactions m"
proof (induction answers arbitrary: m)
  case Nil
  then show ?case by (simp add: sent_transactions_emit)
next
  case (Cons a answers)
  show ?case
  proof (cases a)
    case (Inl e)
    then show ?thesis by (simp add: sent_transactions_emit Let_def)
  next
    case (Inr s)
    then show ?thesis using Cons by (simp add: sent_transactions_emit Let_def)
  qed
qed

text \<open>
  C5: once the intent is created and its amount converted to \<open>wei\<close>, \<open>handlePay\<close> hands
  the wallet at most one transaction. For a native token it is
  \<open>{to: merchantAddress, value: wei}\<close> without data; for any other token it is
  \<open>{to: tokenAddress, data}\<close> without value, where \<open>data\<close> is the encoding of
  \<open>transfer(merchantAddress, wei)\<close> and \<open>tokenAddress\<close> is the contract address the intent
  names (nothing is sent when the encoding throws).
\<close>

theorem handlePay_transaction_shape:
  assumes "toolData m = Some d" and "selectedToken m = Some token"
    and "createIntent w toolId (symbol token) = Inr intent"
    and "parseUnits (parseUnits_excess w) (intent_amount intent) (decimals token) = Inr wei"
  shows "sent_transactions (handlePay w toolId answers m) =
     sent_transactions m @
       (if isNative token
        then [\<lparr>tx_to = merchantAddress intent, tx_value = Some wei, tx_data = None,
               tx_chainId = chain_id d\<rparr>]
        else (case encodeFunctionData w ''transfer''
                     [AbiAddress (merchantAddress intent), AbiUint256 wei] of
                Inl e \<Rightarrow> []
              | Inr encoded \<Rightarrow>
                  [\<lparr>tx_to = tokenAddress intent, tx_value = None, tx_data = Some encoded,
                    tx_chainId = chain_id d\<rparr>]))"
proof (cases "handlePay_transaction w d token intent wei")
  case (Inl e)
  then have enc: "\<not> isNative token"
      "encodeFunctionData w ''transfer'' [AbiAddress (merchantAddress intent), AbiUint256 wei] = Inl e"
    by (auto simp: handlePay_transaction_def split: if_splits sum.splits)
  have "sent_transactions (handlePay w toolId answers m) = sent_transactions m"
    using assms Inl by (simp add: handlePay_def handlePay_try_def sent_transactions_emit)
  then show ?thesis using enc by simp
next
  case (Inr tx)
  have tx: "(if isNative token
        then [\<lparr>tx_to = merchantAddress intent, tx_value = Some wei, tx_data = None,
               tx_chainId = chain_id d\<rparr>]
        else (case encodeFunctionData w ''transfer''
                     [AbiAddress (merchantAddress intent), AbiUint256 wei] of
                Inl e \<Rightarrow> []
              | Inr encoded \<Rightarrow>
                  [\<lparr>tx_to = tokenAddress intent, tx_value = None, tx_data = Some encoded,
                    tx_chainId = chain_id d\<rparr>])) = [tx]"
    using Inr by (auto simp: handlePay_transaction_def split: if_splits sum.splits)
  have "sent_transactions (handlePay w toolId answers m) = sent_transactions m @ [tx]"
  proof (cases "sendTransaction w tx")
    case (Inl e)
    then show ?thesis
      using assms Inr by (simp add: handlePay_def handlePay_try_def sent_transactions_emit)
  next
    case hash: (Inr hash)
    show ?thesis
    proof (cases "submitPayment w
           \<lparr>tx_hash = hash, request_chain_id = chain_id d,
            amount_wei = bigint_toString wei, token_address = tokenAddress intent,
            recipient = merchantAddress intent, metadata_toolId = toolId\<rparr> toolId")
      case (Inl e)
      then show ?thesis
        using assms Inr hash
        by (simp add: handlePay_def handlePay_try_def sent_transactions_emit Let_def)
    next
      case (Inr r)
      then show ?thesis
        using assms \<open>handlePay_transaction w d token intent wei = Inr tx\<close> hash
        by (simp add: handlePay_def handlePay_try_def sent_transactions_emit Let_def)
    qed
  qed
  then show ?thesis using tx by simp
qed

theorem handlePay_transaction_shape_witness:
  "toolData (mount example_world ''tool_1'') = Some example_tool
   \<and> selectedToken (mount example_world ''tool_1'')
        = Some (withBalance (example_token ''ETH'' True) ''7000000000000000000'' ''7000000000000000000'' True)
   \<and> createIntent example_world ''tool_1'' ''ETH'' = Inr (example_intent ''ETH'')
   \<and> parseUnits (parseUnits_excess example_world) ''49.99'' 18 = Inr 49990000000000000000
   \<and> sent_transactions (handlePay example_world ''tool_1'' [] (mount example_world ''tool_1''))
        = [\<lparr>tx_to = ''0xmerchant'', tx_value = Some 49990000000000000000, tx_data = None,
             tx_chainId = 1\<rparr>]
   \<and> sent_transactions
        (handlePay example_world ''tool_1'' []
           ((mount example_world ''tool_1'')
              \<lparr>selectedToken := Some (withBalance (example_token ''USDC'' False) ''0'' ''0'' False)\<rparr>))
        = [\<lparr>tx_to = ''0xUSDC'', tx_value = None, tx_data = Some ''0xtransfer'', tx_chainId = 1\<rparr>]"
proof -
  let ?m = "mount example_world ''tool_1''"
  let ?eth = "withBalance (example_token ''ETH'' True) ''7000000000000000000'' ''7000000000000000000'' True"
  let ?usdc = "withBalance (example_token ''USDC'' False) ''0'' ''0'' False"
  have td: "toolData ?m = Some example_tool" by code_simp
  have sel: "selectedToken ?m = Some ?eth" by code_simp
  have sent0: "sent_transactions ?m = []" by code_simp
  have ci: "createIntent example_world ''tool_1'' (symbol ?eth) = Inr (example_intent ''ETH'')"
    by (simp add: example_world_def withBalance_def example_token_def)
  have pu: "parseUnits (parseUnits_excess example_world) (intent_amount (example_intent ''ETH'')) (decimals ?eth)
              = Inr 49990000000000000000"
    by code_simp
  have native: "isNative ?eth" by (simp add: withBalance_def example_token_def)
  have 1: "sent_transactions (handlePay example_world ''tool_1'' [] ?m)
        = [\<lparr>tx_to = ''0xmerchant'', tx_value = Some 49990000000000000000, tx_data = None,
             tx_chainId = 1\<rparr>]"
    using handlePay_transaction_shape[OF td sel ci pu, of "[]"] sent0 native
    by (simp add: example_intent_def example_tool_def)
  let ?m' = "?m\<lparr>selectedToken := Some ?usdc\<rparr>"
  have td': "toolData ?m' = Some example_tool" using td by simp
  have sel': "selectedToken ?m' = Some ?usdc" by simp
  have sent0': "sent_transactions ?m' = []" using sent0 by (simp add: sent_transactions_def)
  have ci': "createIntent example_world ''tool_1'' (symbol ?usdc) = Inr (example_intent ''USDC'')"
    by (simp add: example_world_def withBalance_def example_token_def)
  have pu': "parseUnits (parseUnits_excess example_world) (intent_amount (example_intent ''USDC'')) (decimals ?usdc)
              = Inr 49990000000000000000"
    by code_simp
  have erc: "\<not> isNative ?usdc" by (simp add: withBalance_def example_token_def)
  have 2: "sent_transactions (handlePay example_world ''tool_1'' [] ?m')
        = [\<lparr>tx_to = ''0xUSDC'', tx_value = None, tx_data = Some ''0xtransfer'', tx_chainId = 1\<rparr>]"
    using handlePay_transaction_shape[OF td' sel' ci' pu', of "[]"] sent0' erc
    by (simp add: example_intent_def example_tool_def example_world_def)
  have ci0: "createIntent example_world ''tool_1'' ''ETH'' = Inr (example_intent ''ETH'')"
    by (simp add: example_world_def)
  have pu0: "parseUnits (parseUnits_excess example_world) ''49.99'' 18 = Inr 49990000000000000000"
    using pu by (simp add: example_intent_def withBalance_def example_token_def)
  show ?thesis using td sel ci0 pu0 1 2 by simp
qed

text \<open>
  C7, at a payment whose status request fails (or whose status is \<open>failed\<close>): the modal
  goes to ERROR with the message, but \<open>onError\<close> is never called. When it is the
  submission that fails, one step earlier, \<open>onError\<close> is called with the error.
\<close>

theorem polling_failure_skips_onError:
  "state (handlePay example_world ''tool_1''
            [Inl (Error ''Failed to get payment status: Internal Server Error'')]
            (mount example_world ''tool_1'')) = ERROR
   \<and> error (handlePay example_world ''tool_1''
            [Inl (Error ''Failed to get payment status: Internal Server Error'')]
            (mount example_world ''tool_1''))
        = Some ''Failed to get payment status: Internal Server Error''
   \<and> onError_calls (handlePay example_world ''tool_1''
            [Inl (Error ''Failed to get payment status: Internal Server Error'')]
            (mount example_world ''tool_1'')) = []
   \<and> state (handlePay example_world ''tool_1''
            [Inr \<lparr>status_payment_id = ''pay_1'', status_tx_hash = ''0xhash'', status_chain_id = 1,
                  status = failed, verified_at = None\<rparr>]
            (mount example_world ''tool_1'')) = ERROR
   \<and> onError_calls (handlePay example_world ''tool_1''
            [Inr \<lparr>status_payment_id = ''pay_1'', status_tx_hash = ''0xhash'', status_chain_id = 1,
                  status = failed, verified_at = None\<rparr>]
            (mount example_world ''tool_1'')) = []
   \<and> onError_calls
        (handlePay
           (example_world\<lparr>submitPayment := (\<lambda>r i. Inl (Error ''Failed to submit payment: Bad Gateway''))\<rparr>)
           ''tool_1'' [] (mount example_world ''tool_1''))
        = [Error ''Failed to submit payment: Bad Gateway'']"
  by code_simp

text \<open>
  C9, at a tool fetch that fails on mount: the modal is in ERROR after one request. Retry
  sets the state to FETCHING_TOOL, but the effect that calls \<open>loadTool\<close> depends on
  \<open>toolId\<close> alone and does not run again: no request is sent (whatever the backend would
  answer now), and the interval leaves the state as it is.
\<close>

theorem retry_sends_no_request:
  "state (mount (example_world\<lparr>fetchTool := (\<lambda>i. Inl (Error ''Failed to fetch payment tool: Not Found''))\<rparr>)
            ''tool_1'') = ERROR
   \<and> fetchTool_requests
        (mount (example_world\<lparr>fetchTool := (\<lambda>i. Inl (Error ''Failed to fetch payment tool: Not Found''))\<rparr>)
            ''tool_1'') = [''tool_1'']
   \<and> state (click_retry w toolId m) = FETCHING_TOOL
   \<and> effects (click_retry w toolId m) = effects m
   \<and> fetchTool_requests (click_retry w toolId m) = fetchTool_requests m
   \<and> interval_tick w (click_retry w toolId m) = click_retry w toolId m"
proof -
  let ?w = "example_world\<lparr>fetchTool := (\<lambda>i. Inl (Error ''Failed to fetch payment tool: Not Found''))\<rparr>"
  have 1: "state (mount ?w ''tool_1'') = ERROR" by code_simp
  have 2: "fetchTool_requests (mount ?w ''tool_1'') = [''tool_1'']" by code_simp
  have r: "click_retry w toolId m = m\<lparr>state := FETCHING_TOOL\<rparr>"
    by (simp add: click_retry_def loadTool_effect_def)
  have 3: "interval_tick w (m\<lparr>state := FETCHING_TOOL\<rparr>) = m\<lparr>state := FETCHING_TOOL\<rparr>"
    by (simp add: interval_tick_def split: option.splits)
  show ?thesis using 1 2 3 unfolding r by (simp add: fetchTool_requests_def)
qed

section \<open>Properties of the amount conversion\<close>







































section \<open>Properties of the webhook verifier\<close>

lemma split_on_not_Nil: "split_on sep s \<noteq> []"
  by (induction s) (auto split: list.splits)

lemma split_on_no_sep: "sep \<notin> set a \<Longrightarrow> split_on sep a = [a]"
  by (induction a) (auto split: list.splits)

lemma split_on_first: "sep \<notin> set a \<Longrightarrow> split_on sep (a @ sep # b) = a # split_on sep b"
  by (induction a) (auto split: list.splits simp: split_on_not_Nil)

lemma split_on_chars: "p \<in> set (split_on sep s) \<Longrightarrow> set p \<subseteq> set s"
proof (induction s arbitrary: p)
  case Nil
  then show ?case by simp
next
  case (Cons c s)
  show ?case
  proof (cases "c = sep")
    case True
    then show ?thesis using Cons by auto
  next
    case False
    obtain q qs where q: "split_on sep s = q # qs"
      using split_on_not_Nil[of sep s] by (cases "split_on sep s") auto
    then have "p = c # q \<or> p \<in> set qs" using Cons.prems False by simp
    then show ?thesis using Cons.IH q by fastforce
  qed
qed

lemma key_value_t: "key_value (''t='' @ x) = (''t'', x)"
  by (simp add: key_value_def)

lemma key_value_v1: "key_value (''v1='' @ x) = (''v1'', x)"
  by (simp add: key_value_def)

lemma key_value_no_eq:
  assumes "CHR ''='' \<notin> set p"
  shows "key_value p = (p, [])"
proof -
  have a: "\<forall>x\<in>set p. x \<noteq> CHR ''=''" using assms by auto
  then have "takeWhile (\<lambda>c. c \<noteq> CHR ''='') p = p" by (simp add: takeWhile_eq_all_conv)
  moreover have "dropWhile (\<lambda>c. c \<noteq> CHR ''='') p = []" using a by simp
  ultimately show ?thesis unfolding key_value_def by (simp only: drop_Nil)
qed

lemma is_digit_not_comma: "is_digit c \<Longrightarrow> c \<noteq> CHR '',''"
  by (auto simp: is_digit_def)

lemma is_lower_hex_not_comma: "is_lower_hex c \<Longrightarrow> c \<noteq> CHR '',''"
  by (auto simp: is_lower_hex_def is_digit_def)

lemma header_field_t:
  assumes "0 \<le> t"
  shows "header_field ''t'' (signature_header t v1) = Some (decimal_digits t)"
proof -
  have "CHR '','' \<notin> set (''t='' @ decimal_digits t)"
    using all_digits_decimal_digits[OF assms] is_digit_not_comma by (auto simp: list_all_iff)
  then have "split_on (CHR '','') ((''t='' @ decimal_digits t) @ CHR '','' # (''v1='' @ v1))
      = (''t='' @ decimal_digits t) # split_on (CHR '','') (''v1='' @ v1)"
    by (rule split_on_first)
  moreover have "signature_header t v1 = (''t='' @ decimal_digits t) @ CHR '','' # (''v1='' @ v1)"
    by (simp add: signature_header_def)
  ultimately show ?thesis
    using key_value_t[of "decimal_digits t"] by (simp add: header_field_def del: append.simps)
qed

lemma header_field_v1:
  assumes "0 \<le> t" and "list_all is_lower_hex v1"
  shows "header_field ''v1'' (signature_header t v1) = Some v1"
proof -
  have "CHR '','' \<notin> set (''t='' @ decimal_digits t)"
    using all_digits_decimal_digits[OF assms(1)] is_digit_not_comma by (auto simp: list_all_iff)
  then have 1: "split_on (CHR '','') ((''t='' @ decimal_digits t) @ CHR '','' # (''v1='' @ v1))
      = (''t='' @ decimal_digits t) # split_on (CHR '','') (''v1='' @ v1)"
    by (rule split_on_first)
  have "CHR '','' \<notin> set (''v1='' @ v1)"
    using assms(2) is_lower_hex_not_comma by (auto simp: list_all_iff)
  then have 2: "split_on (CHR '','') (''v1='' @ v1) = [''v1='' @ v1]"
    by (rule split_on_no_sep)
  have 3: "signature_header t v1 = (''t='' @ decimal_digits t) @ CHR '','' # (''v1='' @ v1)"
    by (simp add: signature_header_def)
  show ?thesis
    unfolding header_field_def 3 1 2
    using key_value_t[of "decimal_digits t"] key_value_v1[of v1]
    by (simp del: append.simps)
qed

lemma xor_nat_eq_0: "(a::nat) XOR b = 0 \<longleftrightarrow> a = b"
  by (metis xor.right_neutral xor.assoc xor_self_eq)

lemma foldl_or_xor:
  "foldl (\<lambda>acc (x, y). acc OR ((of_char x :: nat) XOR of_char y)) acc0 ps = 0
     \<longleftrightarrow> acc0 = 0 \<and> (\<forall>(x, y)\<in>set ps. x = y)"
proof (induction ps arbitrary: acc0)
  case Nil
  then show ?case by simp
next
  case (Cons p ps)
  obtain x y where p: "p = (x, y)" by (cases p)
  show ?case using Cons[of "acc0 OR ((of_char x :: nat) XOR of_char y)"] p
    by (auto simp: or_eq_0_iff xor_nat_eq_0)
qed

lemma timing_safe_equal_iff: "timing_safe_equal a b \<longleftrightarrow> a = b"
  unfolding timing_safe_equal_def foldl_or_xor
  by (auto simp: list_eq_iff_zip_eq)

lemma verifyWebhookSignature_True_iff:
  "verifyWebhookSignature hmac now rawBody h secret toleranceSec \<longleftrightarrow>
     (\<exists>t v. header_field ''t'' h = Some t \<and> header_field ''v1'' h = Some v
        \<and> t \<noteq> [] \<and> list_all is_digit t \<and> v \<noteq> [] \<and> list_all is_lower_hex v
        \<and> hmac secret (t @ ''.'' @ rawBody) = Inr v
        \<and> \<bar>now - digits_value t\<bar> \<le> (case toleranceSec of None \<Rightarrow> 300 | Some s \<Rightarrow> s))"
  unfolding verifyWebhookSignature_def Let_def
  by (auto simp: timing_safe_equal_iff split: option.splits sum.splits)

lemma header_field_no_eq:
  assumes "CHR ''='' \<notin> set h" and "header_field k h = Some v"
  shows "v = []"
proof -
  have "(k, v) \<in> set (map key_value (split_on (CHR '','') h))"
    using assms(2) by (auto simp: header_field_def dest: map_of_SomeD)
  then obtain p where p: "p \<in> set (split_on (CHR '','') h)" "key_value p = (k, v)" by auto
  then have "CHR ''='' \<notin> set p" using split_on_chars[OF p(1)] assms(1) by auto
  then show ?thesis using key_value_no_eq p(2) by simp
qed

text \<open>
  C1: for a timestamp \<open>t\<close> (unix seconds, not negative), a header
  \<open>t=<t>,v1=<sig>\<close> whose \<open>sig\<close> is the lowercase-hex HMAC-SHA256 of \<open>t.rawBody\<close>
  under the secret is accepted when \<open>|now - t|\<close> is within the tolerance; and a header with
  that timestamp is rejected when \<open>|now - t|\<close> exceeds the tolerance, whatever its \<open>v1\<close>
  field holds.
\<close>

theorem verifyWebhookSignature_signature_and_window:
  assumes "0 \<le> t"
  shows "(hmac secret (decimal_digits t @ ''.'' @ rawBody) = Inr sig
            \<and> sig \<noteq> [] \<and> list_all is_lower_hex sig
            \<and> \<bar>now - t\<bar> \<le> (case toleranceSec of None \<Rightarrow> 300 | Some s \<Rightarrow> s)
          \<longrightarrow> verifyWebhookSignature hmac now rawBody (signature_header t sig) secret toleranceSec)
       \<and> (\<bar>now - t\<bar> > (case toleranceSec of None \<Rightarrow> 300 | Some s \<Rightarrow> s)
          \<longrightarrow> \<not> verifyWebhookSignature hmac now rawBody (signature_header t v1) secret toleranceSec)"
proof (intro conjI impI)
  assume a: "hmac secret (decimal_digits t @ ''.'' @ rawBody) = Inr sig
            \<and> sig \<noteq> [] \<and> list_all is_lower_hex sig
            \<and> \<bar>now - t\<bar> \<le> (case toleranceSec of None \<Rightarrow> 300 | Some s \<Rightarrow> s)"
  then have hex: "list_all is_lower_hex sig" by simp
  have "header_field ''t'' (signature_header t sig) = Some (decimal_digits t)"
    by (rule header_field_t[OF assms])
  moreover have "header_field ''v1'' (signature_header t sig) = Some sig"
    by (rule header_field_v1[OF assms hex])
  ultimately show "verifyWebhookSignature hmac now rawBody (signature_header t sig) secret toleranceSec"
    unfolding verifyWebhookSignature_True_iff
    using a decimal_digits_not_Nil all_digits_decimal_digits[OF assms]
      digits_value_decimal_digits[OF assms]
    by simp
next
  assume late: "\<bar>now - t\<bar> > (case toleranceSec of None \<Rightarrow> 300 | Some s \<Rightarrow> s)"
  have "header_field ''t'' (signature_header t v1) = Some (decimal_digits t)"
    by (rule header_field_t[OF assms])
  then show "\<not> verifyWebhookSignature hmac now rawBody (signature_header t v1) secret toleranceSec"
    unfolding verifyWebhookSignature_True_iff
    using late digits_value_decimal_digits[OF assms] by auto
qed

theorem verifyWebhookSignature_signature_and_window_witness:
  "(0::int) \<le> 1700000000
   \<and> example_hmac ''test_secret_123'' (decimal_digits 1700000000 @ ''.'' @ ''{}'') = Inr ''5f2b1c0de4a7''
   \<and> list_all is_lower_hex ''5f2b1c0de4a7''
   \<and> \<bar>1700000100 - 1700000000\<bar> \<le> (300::int)
   \<and> verifyWebhookSignature example_hmac 1700000100 ''{}''
         (signature_header 1700000000 ''5f2b1c0de4a7'') ''test_secret_123'' None
   \<and> \<bar>1700000600 - 1700000000\<bar> > (300::int)
   \<and> \<not> verifyWebhookSignature example_hmac 1700000600 ''{}''
         (signature_header 1700000000 ''5f2b1c0de4a7'') ''test_secret_123'' (Some 300)"
proof -
  have t: "(0::int) \<le> 1700000000" by simp
  have h: "example_hmac ''test_secret_123'' (decimal_digits 1700000000 @ ''.'' @ ''{}'') = Inr ''5f2b1c0de4a7''"
    by (simp add: example_hmac_def)
  have x: "list_all is_lower_hex ''5f2b1c0de4a7''"
    by (simp add: is_lower_hex_def is_digit_def)
  have 1: "verifyWebhookSignature example_hmac 1700000100 ''{}''
         (signature_header 1700000000 ''5f2b1c0de4a7'') ''test_secret_123'' None"
    using verifyWebhookSignature_signature_and_window[OF t, of example_hmac "''test_secret_123''"
        "''{}''" "''5f2b1c0de4a7''" 1700000100 None] h x
    by simp
  have 2: "\<not> verifyWebhookSignature example_hmac 1700000600 ''{}''
         (signature_header 1700000000 ''5f2b1c0de4a7'') ''test_secret_123'' (Some 300)"
    using verifyWebhookSignature_signature_and_window[OF t, of example_hmac "''test_secret_123''"
        "''{}''" _ 1700000600 "Some 300" "''5f2b1c0de4a7''"]
    by simp
  show ?thesis using t h x 1 2 by simp
qed

text \<open>
  C2: the verifier answers for every input, and it answers \<open>False\<close> unless the header
  holds a \<open>t\<close> field that is a decimal integer and a \<open>v1\<close> field that is a lowercase hex
  string: for the empty header, for a header without a \<open>t\<close> field or without a \<open>v1\<close>
  field, for a field of the wrong form, for a string without any \<open>=\<close>, and when the
  platform's HMAC throws.
\<close>

theorem verifyWebhookSignature_malformed_header:
  "\<not> verifyWebhookSignature hmac now rawBody [] secret toleranceSec
   \<and> (header_field ''t'' h = None \<or> header_field ''v1'' h = None
        \<longrightarrow> \<not> verifyWebhookSignature hmac now rawBody h secret toleranceSec)
   \<and> (header_field ''t'' h = Some t \<and> (t = [] \<or> \<not> list_all is_digit t)
        \<longrightarrow> \<not> verifyWebhookSignature hmac now rawBody h secret toleranceSec)
   \<and> (header_field ''v1'' h = Some v \<and> (v = [] \<or> \<not> list_all is_lower_hex v)
        \<longrightarrow> \<not> verifyWebhookSignature hmac now rawBody h secret toleranceSec)
   \<and> (CHR ''='' \<notin> set h
        \<longrightarrow> \<not> verifyWebhookSignature hmac now rawBody h secret toleranceSec)
   \<and> (header_field ''t'' h = Some t \<and> hmac secret (t @ ''.'' @ rawBody) = Inl e
        \<longrightarrow> \<not> verifyWebhookSignature hmac now rawBody h secret toleranceSec)"
proof (intro conjI impI)
  have "header_field ''t'' [] = None"
    by (simp add: header_field_def key_value_def)
  then show "\<not> verifyWebhookSignature hmac now rawBody [] secret toleranceSec"
    unfolding verifyWebhookSignature_True_iff by simp
next
  assume "header_field ''t'' h = None \<or> header_field ''v1'' h = None"
  then show "\<not> verifyWebhookSignature hmac now rawBody h secret toleranceSec"
    unfolding verifyWebhookSignature_True_iff by auto
next
  assume "header_field ''t'' h = Some t \<and> (t = [] \<or> \<not> list_all is_digit t)"
  then show "\<not> verifyWebhookSignature hmac now rawBody h secret toleranceSec"
    unfolding verifyWebhookSignature_True_iff by auto
next
  assume "header_field ''v1'' h = Some v \<and> (v = [] \<or> \<not> list_all is_lower_hex v)"
  then show "\<not> verifyWebhookSignature hmac now rawBody h secret toleranceSec"
    unfolding verifyWebhookSignature_True_iff by auto
next
  assume "CHR ''='' \<notin> set h"
  then have "\<And>x. header_field ''t'' h = Some x \<Longrightarrow> x = []"
    using header_field_no_eq by blast
  then show "\<not> verifyWebhookSignature hmac now rawBody h secret toleranceSec"
    unfolding verifyWebhookSignature_True_iff by auto
next
  assume "header_field ''t'' h = Some t \<and> hmac secret (t @ ''.'' @ rawBody) = Inl e"
  then show "\<not> verifyWebhookSignature hmac now rawBody h secret toleranceSec"
    unfolding verifyWebhookSignature_True_iff by auto
qed

theorem verifyWebhookSignature_malformed_header_witness:
  "\<not> verifyWebhookSignature example_hmac 1700000000 ''{}''
        [] ''test_secret'' None
   \<and> CHR ''='' \<notin> set ''invalid_format''
   \<and> \<not> verifyWebhookSignature example_hmac 1700000000 ''{}''
        ''invalid_format'' ''test_secret'' None
   \<and> header_field ''v1'' ''t=1700000000'' = None
   \<and> \<not> verifyWebhookSignature example_hmac 1700000000 ''{}''
        ''t=1700000000'' ''test_secret'' None
   \<and> header_field ''t'' ''v1=5f2b1c0de4a7'' = None
   \<and> \<not> verifyWebhookSignature example_hmac 1700000000 ''{}''
        ''v1=5f2b1c0de4a7'' ''test_secret'' None"
proof -
  have e: "CHR ''='' \<notin> set ''invalid_format''" by simp
  have v: "header_field ''v1'' ''t=1700000000'' = None"
    by (simp add: header_field_def key_value_def)
  have t: "header_field ''t'' ''v1=5f2b1c0de4a7'' = None"
    by (simp add: header_field_def key_value_def)
  note m = verifyWebhookSignature_malformed_header[of example_hmac 1700000000 _ "''test_secret''" None]
  have 0: "\<not> verifyWebhookSignature example_hmac 1700000000 b [] ''test_secret'' None" for b
    using m[of b] by blast
  have 1: "\<not> verifyWebhookSignature example_hmac 1700000000 b ''invalid_format'' ''test_secret'' None" for b
    using m[of b "''invalid_format''"] e by blast
  have 2: "\<not> verifyWebhookSignature example_hmac 1700000000 b ''t=1700000000'' ''test_secret'' None" for b
    using m[of b "''t=1700000000''"] v by blast
  have 3: "\<not> verifyWebhookSignature example_hmac 1700000000 b ''v1=5f2b1c0de4a7'' ''test_secret'' None" for b
    using m[of b "''v1=5f2b1c0de4a7''"] t by blast
  show ?thesis using e v t 0 1 2 3 by blast
qed

end
